theory Spec2Isabelle
  imports Complex_Main
begin

section \<open>Numbers, timers and the engine\<close>

text \<open>
  The players are React components.  Their state variables (\<open>useState\<close>) and refs
  (\<open>useRef\<close>) become record fields, their handlers become functions from state to
  state, and what they hand to the outside (calls on \<open>videoRef.current\<close>, calls of the
  host's \<open>onProgress\<close> prop) is appended to a log kept in the state.  The props that a
  component gives to its \<open>Video\<close> element at each render are functions of the state.

  JavaScript numbers are modelled as reals: only finite values are considered, and the
  rounding of floating point arithmetic is not modelled.  Time stamps (\<open>Date.now()\<close>,
  \<open>setTimeout\<close> delays) are natural numbers of milliseconds.

  Every handler is assumed to run on a freshly rendered component, so the values its
  closure reads are the current state.
\<close>

type_synonym number = real

text \<open>
  \<open>setTimeout\<close> and \<open>clearTimeout\<close>.  A pending timer is its id, the time it is due
  and the callback it will run; the callback is a value of a datatype that holds what
  the closure captured.  The component's state extends this record.
\<close>

record 'a sched =
  now :: nat
  nextId :: nat
  pending :: "(nat \<times> nat \<times> 'a) list"

definition setTimeout :: "'a \<Rightarrow> nat \<Rightarrow> ('a, 'm) sched_scheme \<Rightarrow> ('a, 'm) sched_scheme" where
  "setTimeout cb delay w =
     w\<lparr>nextId := Suc (nextId w), pending := pending w @ [(nextId w, now w + delay, cb)]\<rparr>"

definition clearTimeout :: "nat \<Rightarrow> ('a, 'm) sched_scheme \<Rightarrow> ('a, 'm) sched_scheme" where
  "clearTimeout i w = w\<lparr>pending := filter (\<lambda>t. fst t \<noteq> i) (pending w)\<rparr>"

text \<open>\<open>if (ref.current) clearTimeout(ref.current)\<close>: a ref holds a timer id or null.\<close>

definition clearRef :: "nat option \<Rightarrow> ('a, 'm) sched_scheme \<Rightarrow> ('a, 'm) sched_scheme" where
  "clearRef r w = (case r of None \<Rightarrow> w | Some i \<Rightarrow> clearTimeout i w)"

text \<open>
  The passage of time, one millisecond at a time.  At each millisecond the timers that
  are due run in the order in which they were set; a timer that an earlier callback of
  the same millisecond has cleared does not run.  \<open>fire\<close> is the component's
  interpretation of a callback.
\<close>

fun run_due :: "('a \<Rightarrow> ('a, 'm) sched_scheme \<Rightarrow> ('a, 'm) sched_scheme) \<Rightarrow>
    nat list \<Rightarrow> ('a, 'm) sched_scheme \<Rightarrow> ('a, 'm) sched_scheme" where
  "run_due fire [] w = w"
| "run_due fire (i # ids) w =
     run_due fire ids
       (case find (\<lambda>u. fst u = i \<and> fst (snd u) \<le> now w) (pending w) of
          None \<Rightarrow> w
        | Some u \<Rightarrow> fire (snd (snd u)) (clearTimeout i w))"

definition tick :: "('a \<Rightarrow> ('a, 'm) sched_scheme \<Rightarrow> ('a, 'm) sched_scheme) \<Rightarrow>
    ('a, 'm) sched_scheme \<Rightarrow> ('a, 'm) sched_scheme" where
  "tick fire w =
     (let w' = w\<lparr>now := Suc (now w)\<rparr>
      in run_due fire (map fst (filter (\<lambda>t. fst (snd t) \<le> now w') (pending w'))) w')"

fun advance :: "('a \<Rightarrow> ('a, 'm) sched_scheme \<Rightarrow> ('a, 'm) sched_scheme) \<Rightarrow>
    nat \<Rightarrow> ('a, 'm) sched_scheme \<Rightarrow> ('a, 'm) sched_scheme" where
  "advance fire 0 w = w"
| "advance fire (Suc n) w = advance fire n (tick fire w)"

text \<open>What the player asks of the media engine through \<open>videoRef.current\<close>.\<close>

datatype engine_cmd =
    Seek number
  | SetPositionAsync number
  | PlayAsync
  | PauseAsync

text \<open>\<open>videoRef.current?.f(x)\<close>: nothing is called while the ref is null.\<close>

definition call :: "bool \<Rightarrow> engine_cmd \<Rightarrow> engine_cmd list \<Rightarrow> engine_cmd list" where
  "call attached c cmds = (if attached then cmds @ [c] else cmds)"

text \<open>\<open>PlayerState\<close> of \<open>src/types/index.ts\<close>.\<close>

record PlayerState =
  isPlaying :: bool
  currentTime :: number
  duration :: number
  volume :: number
  isMuted :: bool
  isFullscreen :: bool

section \<open>The progress callback effect\<close>

text \<open>
  \<^verbatim>\<open>useEffect(() => {
    if (onProgressCallback && playerState.duration > 0) {
      onProgressCallback(playerState.currentTime, playerState.duration);
    }
  }, [playerState.currentTime, playerState.duration, onProgressCallback]);\<close>

  The same effect stands in \<open>AdvancedVideoPlayer.tsx\<close> (lines 163-167),
  \<open>NativeVideoPlayer.tsx\<close> (52-56) and \<open>EnhancedVideoPlayer.tsx\<close> (53-57).  The prop
  is undefined or a function of the host, of which only the identity matters here (a
  number); an effect runs after a render in which one of its dependencies has changed.
  The result is the list of calls the host has received.
\<close>

definition progress_effect ::
  "nat option \<Rightarrow> nat option \<Rightarrow> PlayerState \<Rightarrow> PlayerState \<Rightarrow>
   (number \<times> number) list \<Rightarrow> (number \<times> number) list" where
  "progress_effect old_callback onProgressCallback old new calls =
     (if currentTime new = currentTime old \<and> duration new = duration old
         \<and> onProgressCallback = old_callback then calls
      else if onProgressCallback \<noteq> None \<and> duration new > 0
           then calls @ [(currentTime new, duration new)]
           else calls)"

section \<open>NativeVideoPlayer\<close>

record native =
  n_playerState :: PlayerState
  n_videoRef :: bool
  n_onProgressCallback :: "nat option"
  n_engine :: "engine_cmd list"
  n_host :: "(number \<times> number) list"

definition Native_seekTo :: "number \<Rightarrow> native \<Rightarrow> native" where
  "Native_seekTo position w =
     (let seekTime = position / 1000
      in w\<lparr>n_engine := call (n_videoRef w) (Seek seekTime) (n_engine w)\<rparr>)"

definition Native_skipForward :: "native \<Rightarrow> native" where
  "Native_skipForward w =
     (let newPosition = min (currentTime (n_playerState w) + 10000) (duration (n_playerState w))
      in Native_seekTo newPosition w)"

definition Native_skipBackward :: "native \<Rightarrow> native" where
  "Native_skipBackward w =
     (let newPosition = max (currentTime (n_playerState w) - 10000) 0
      in Native_seekTo newPosition w)"

definition Native_togglePlayPause :: "native \<Rightarrow> native" where
  "Native_togglePlayPause w =
     w\<lparr>n_playerState := (n_playerState w)\<lparr>isPlaying := \<not> isPlaying (n_playerState w)\<rparr>\<rparr>"

definition Native_onLoad :: "number \<Rightarrow> native \<Rightarrow> native" where
  "Native_onLoad data_duration w =
     w\<lparr>n_playerState := (n_playerState w)\<lparr>duration := data_duration * 1000\<rparr>\<rparr>"

definition Native_onProgress :: "number \<Rightarrow> native \<Rightarrow> native" where
  "Native_onProgress data_currentTime w =
     w\<lparr>n_playerState := (n_playerState w)\<lparr>currentTime := data_currentTime * 1000\<rparr>\<rparr>"

definition Native_effects :: "native \<Rightarrow> native \<Rightarrow> native" where
  "Native_effects old w =
     w\<lparr>n_host := progress_effect (n_onProgressCallback old) (n_onProgressCallback w) (n_playerState old) (n_playerState w) (n_host w)\<rparr>"

text \<open>A handler runs, the component renders, the effects run.\<close>

definition Native_event :: "(native \<Rightarrow> native) \<Rightarrow> native \<Rightarrow> native" where
  "Native_event h w = Native_effects w (h w)"

section \<open>EnhancedVideoPlayer\<close>

text \<open>
  The status that expo-av reports.  \<open>durationMillis\<close> is optional; \<open>st_error\<close> is the
  \<open>error\<close> field of a status that is not loaded.
\<close>

record AVPlaybackStatus =
  isLoaded :: bool
  st_error :: "string option"
  st_isBuffering :: bool
  st_isPlaying :: bool
  positionMillis :: number
  durationMillis :: "number option"
  st_volume :: number
  st_isMuted :: bool

text \<open>
  The callback of the buffering timeout holds the \<open>playerState.currentTime\<close> that the
  handler's closure saw when it set the timer.
\<close>

datatype enh_cb = BufferingRecover number

text \<open>
  The controls overlay of this component (\<open>showControls\<close> and its hiding timer) does
  not meet the buffering timeout and is left out.
\<close>

record enhanced = "enh_cb sched" +
  e_playerState :: PlayerState
  e_isLoading :: bool
  e_error :: "string option"
  e_isBuffering :: bool
  e_bufferingTimeout :: "nat option"
  e_videoRef :: bool
  e_onProgress :: "nat option"
  e_engine :: "engine_cmd list"
  e_host :: "(number \<times> number) list"

text \<open>\<open>x || d\<close> on numbers: zero is falsy.\<close>

definition js_or :: "number \<Rightarrow> number \<Rightarrow> number" where
  "js_or x d = (if x = 0 then d else x)"

definition Enhanced_onPlaybackStatusUpdate :: "AVPlaybackStatus \<Rightarrow> enhanced \<Rightarrow> enhanced" where
  "Enhanced_onPlaybackStatusUpdate status w =
     (if isLoaded status then
        (let w1 = w\<lparr>e_isLoading := False\<rparr>;
             w2 = (if st_isBuffering status then
                     (let a = w1\<lparr>e_isBuffering := True\<rparr>;
                          b = clearRef (e_bufferingTimeout w) a;
                          c = setTimeout (BufferingRecover (currentTime (e_playerState w))) 10000 b
                      in c\<lparr>e_bufferingTimeout := Some (nextId b)\<rparr>)
                   else
                     (let a = w1\<lparr>e_isBuffering := False\<rparr>
                      in case e_bufferingTimeout w of
                           None \<Rightarrow> a
                         | Some i \<Rightarrow> (clearTimeout i a)\<lparr>e_bufferingTimeout := None\<rparr>))
         in w2\<lparr>e_playerState := (e_playerState w2)
                  \<lparr>isPlaying := st_isPlaying status,
                   currentTime := js_or (positionMillis status) 0,
                   duration := (case durationMillis status of None \<Rightarrow> 0 | Some d \<Rightarrow> js_or d 0),
                   volume := js_or (st_volume status) 1.0,
                   isMuted := st_isMuted status\<rparr>,
                e_error := None\<rparr>)
      else if st_error status \<noteq> None \<and> st_error status \<noteq> Some [] then
        (let w1 = w\<lparr>e_isLoading := False, e_isBuffering := False\<rparr>;
             w2 = (case e_bufferingTimeout w of
                     None \<Rightarrow> w1
                   | Some i \<Rightarrow> (clearTimeout i w1)\<lparr>e_bufferingTimeout := None\<rparr>)
         in w2\<lparr>e_error := Some ''Failed to load video. Please try again.''\<rparr>)
      else w)"

definition Enhanced_callback :: "enh_cb \<Rightarrow> enhanced \<Rightarrow> enhanced" where
  "Enhanced_callback cb w =
     (case cb of BufferingRecover captured \<Rightarrow>
        (let w1 = w\<lparr>e_isBuffering := False\<rparr>
         in if e_videoRef w1 \<and> captured > 0
            then w1\<lparr>e_engine := e_engine w1 @ [SetPositionAsync captured]\<rparr>
            else w1))"

text \<open>
  The engine's promise may reject (\<open>rejects\<close>); the handler catches that and sets the
  error.
\<close>

definition Enhanced_togglePlayPause :: "bool \<Rightarrow> enhanced \<Rightarrow> enhanced" where
  "Enhanced_togglePlayPause rejects w =
     (let w1 = (if isPlaying (e_playerState w)
                then w\<lparr>e_engine := call (e_videoRef w) PauseAsync (e_engine w)\<rparr>
                else w\<lparr>e_engine := call (e_videoRef w) PlayAsync (e_engine w)\<rparr>)
      in if e_videoRef w \<and> rejects then w1\<lparr>e_error := Some ''Playback control failed''\<rparr> else w1)"

definition Enhanced_seekTo :: "bool \<Rightarrow> number \<Rightarrow> enhanced \<Rightarrow> enhanced" where
  "Enhanced_seekTo rejects position w =
     (let w1 = w\<lparr>e_engine := call (e_videoRef w) (SetPositionAsync position) (e_engine w)\<rparr>
      in if e_videoRef w \<and> rejects then w1\<lparr>e_error := Some ''Seek failed''\<rparr> else w1)"

definition Enhanced_skipForward :: "bool \<Rightarrow> enhanced \<Rightarrow> enhanced" where
  "Enhanced_skipForward rejects w =
     (let newPosition = min (currentTime (e_playerState w) + 10000) (duration (e_playerState w))
      in Enhanced_seekTo rejects newPosition w)"

definition Enhanced_skipBackward :: "bool \<Rightarrow> enhanced \<Rightarrow> enhanced" where
  "Enhanced_skipBackward rejects w =
     (let newPosition = max (currentTime (e_playerState w) - 10000) 0
      in Enhanced_seekTo rejects newPosition w)"

text \<open>
  The effects: the cleanup that clears the timer a replaced \<open>bufferingTimeout\<close> held,
  and the progress callback.
\<close>

definition Enhanced_effects :: "enhanced \<Rightarrow> enhanced \<Rightarrow> enhanced" where
  "Enhanced_effects old w =
     (let w1 = (if e_bufferingTimeout w = e_bufferingTimeout old then w
                else clearRef (e_bufferingTimeout old) w)
      in w1\<lparr>e_host := progress_effect (e_onProgress old) (e_onProgress w1) (e_playerState old) (e_playerState w1) (e_host w1)\<rparr>)"

definition Enhanced_event :: "(enhanced \<Rightarrow> enhanced) \<Rightarrow> enhanced \<Rightarrow> enhanced" where
  "Enhanced_event h w = Enhanced_effects w (h w)"

definition Enhanced_fire :: "enh_cb \<Rightarrow> enhanced \<Rightarrow> enhanced" where
  "Enhanced_fire cb w = Enhanced_effects w (Enhanced_callback cb w)"

section \<open>AdvancedVideoPlayer\<close>

text \<open>
  Two copies of this component are in the repository: \<open>AdvancedVideoPlayer.tsx\<close>
  (\<open>Current\<close>) and an older one in \<open>unnamed/part_002\<close>, lines 1009-1666 (\<open>Legacy\<close>).
  They share their state and most handlers; where they differ the version is a
  parameter.
\<close>

datatype version = Current | Legacy

text \<open>
  The timer callbacks.  \<open>ToggleControls\<close> is the single-tap timer of the current
  version (\<open>setShowControls(prev => !prev)\<close>); \<open>SetControls\<close> is the one of the older
  version, which holds the negation of the \<open>showControls\<close> its closure saw.
  \<open>ForceShow\<close> is the fallback that shows the controls again, \<open>AutoHide\<close> the hiding
  timer, which holds the condition its closure captured.
\<close>

datatype adv_cb =
    ToggleControls
  | SetControls bool
  | ForceShow
  | AutoHide bool

text \<open>What NetInfo reports to its listener.\<close>

record NetInfoState =
  isConnected :: bool
  net_type :: string

text \<open>
  \<open>a_engine\<close>, \<open>a_host\<close> and \<open>a_toggles\<close> are not in the source: they record the
  calls of the methods of \<open>videoRef\<close> (in this component only \<open>seek\<close>), the calls of
  the host's callback, and how often the callback of the single-tap timer has run.  What
  the engine is given through the props of the \<open>Video\<close> element is not in \<open>a_engine\<close>:
  it is a function of the state, \<open>Advanced_paused_prop\<close> and \<open>Advanced_maxBitRate\<close>
  below.  The seek indicator and the animations are left out.
\<close>

record advanced = "adv_cb sched" +
  a_playerState :: PlayerState
  a_showControls :: bool
  a_isLoading :: bool
  a_error :: "string option"
  a_isBuffering :: bool
  a_showSpeedMenu :: bool
  a_showQualityMenu :: bool
  a_networkStatus :: string
  a_lastTap :: nat
  a_controlsTimeoutRef :: "nat option"
  a_doubleTapTimeoutRef :: "nat option"
  a_controlsVisibilityTimeoutRef :: "nat option"
  a_videoRef :: bool
  a_onProgressCallback :: "nat option"
  a_engine :: "engine_cmd list"
  a_host :: "(number \<times> number) list"
  a_toggles :: nat

definition SEEK_TIME :: number where
  "SEEK_TIME = 10000"

definition DOUBLE_PRESS_DELAY :: "version \<Rightarrow> nat" where
  "DOUBLE_PRESS_DELAY v = (case v of Current \<Rightarrow> 250 | Legacy \<Rightarrow> 300)"

subsection \<open>Effects\<close>

text \<open>
  The emergency fallback (\<open>AdvancedVideoPlayer.tsx\<close>, lines 126-138), with dependencies
  \<open>[showControls, playerState.isPlaying]\<close>: the cleanup of the previous run clears the
  timer, then the body sets a new one if the controls are hidden and playback is paused.
\<close>

definition fallback_effect :: "advanced \<Rightarrow> advanced \<Rightarrow> advanced" where
  "fallback_effect old w =
     (if a_showControls w = a_showControls old
         \<and> isPlaying (a_playerState w) = isPlaying (a_playerState old) then w
      else
        (let w1 = clearRef (a_controlsVisibilityTimeoutRef w) w
         in if \<not> a_showControls w1 \<and> \<not> isPlaying (a_playerState w1)
            then (setTimeout ForceShow 1000 w1)\<lparr>a_controlsVisibilityTimeoutRef := Some (nextId w1)\<rparr>
            else w1))"

text \<open>
  The hiding timer.  Current version (lines 141-160): dependencies
  \<open>[showControls, isPlaying, showSpeedMenu, showQualityMenu]\<close>, set whenever the controls
  are shown, and its callback hides them only if playback runs and no menu is open.
  Older version (\<open>part_002\<close>, lines 1110-1126): dependencies \<open>[showControls, isPlaying]\<close>,
  set only while playing, and its callback hides.
\<close>

definition autohide_effect :: "version \<Rightarrow> advanced \<Rightarrow> advanced \<Rightarrow> advanced" where
  "autohide_effect v old w =
     (case v of
        Current \<Rightarrow>
          (if a_showControls w = a_showControls old
              \<and> isPlaying (a_playerState w) = isPlaying (a_playerState old)
              \<and> a_showSpeedMenu w = a_showSpeedMenu old
              \<and> a_showQualityMenu w = a_showQualityMenu old then w
           else
             (let w1 = clearRef (a_controlsTimeoutRef w) w
              in if a_showControls w1
                 then (setTimeout (AutoHide (isPlaying (a_playerState w1) \<and> \<not> a_showSpeedMenu w1
                                             \<and> \<not> a_showQualityMenu w1)) 4000 w1)
                        \<lparr>a_controlsTimeoutRef := Some (nextId w1)\<rparr>
                 else w1))
      | Legacy \<Rightarrow>
          (if a_showControls w = a_showControls old
              \<and> isPlaying (a_playerState w) = isPlaying (a_playerState old) then w
           else
             (let w1 = clearRef (a_controlsTimeoutRef w) w
              in if a_showControls w1 \<and> isPlaying (a_playerState w1)
                 then (setTimeout (AutoHide True) 4000 w1)\<lparr>a_controlsTimeoutRef := Some (nextId w1)\<rparr>
                 else w1)))"

definition Advanced_progress_effect :: "advanced \<Rightarrow> advanced \<Rightarrow> advanced" where
  "Advanced_progress_effect old w =
     w\<lparr>a_host := progress_effect (a_onProgressCallback old) (a_onProgressCallback w) (a_playerState old) (a_playerState w) (a_host w)\<rparr>"

definition Advanced_effects :: "version \<Rightarrow> advanced \<Rightarrow> advanced \<Rightarrow> advanced" where
  "Advanced_effects v old w =
     (let w1 = (case v of Current \<Rightarrow> fallback_effect old w | Legacy \<Rightarrow> w);
          w2 = autohide_effect v old w1
      in Advanced_progress_effect old w2)"

definition Advanced_event :: "version \<Rightarrow> (advanced \<Rightarrow> advanced) \<Rightarrow> advanced \<Rightarrow> advanced" where
  "Advanced_event v h w = Advanced_effects v w (h w)"

subsection \<open>Handlers\<close>

definition Advanced_onLoad :: "version \<Rightarrow> number \<Rightarrow> advanced \<Rightarrow> advanced" where
  "Advanced_onLoad v data_duration w =
     (let w1 = w\<lparr>a_isLoading := False, a_error := None\<rparr>;
          w2 = (case v of Current \<Rightarrow> w1\<lparr>a_showControls := True\<rparr> | Legacy \<Rightarrow> w1)
      in w2\<lparr>a_playerState := (a_playerState w2)\<lparr>duration := data_duration * 1000\<rparr>\<rparr>)"

definition Advanced_onProgress :: "number \<Rightarrow> advanced \<Rightarrow> advanced" where
  "Advanced_onProgress data_currentTime w =
     w\<lparr>a_playerState := (a_playerState w)\<lparr>currentTime := data_currentTime * 1000\<rparr>\<rparr>"

definition Advanced_togglePlayPause :: "version \<Rightarrow> advanced \<Rightarrow> advanced" where
  "Advanced_togglePlayPause v w =
     (let w1 = w\<lparr>a_playerState := (a_playerState w)\<lparr>isPlaying := \<not> isPlaying (a_playerState w)\<rparr>,
                 a_showControls := True\<rparr>
      in case v of Current \<Rightarrow> clearRef (a_controlsTimeoutRef w1) w1 | Legacy \<Rightarrow> w1)"

definition Advanced_seekTo :: "number \<Rightarrow> advanced \<Rightarrow> advanced" where
  "Advanced_seekTo position w =
     (let seekTime = max 0 (min position (duration (a_playerState w)))
      in w\<lparr>a_engine := call (a_videoRef w) (Seek (seekTime / 1000)) (a_engine w),
            a_playerState := (a_playerState w)\<lparr>currentTime := seekTime\<rparr>\<rparr>)"

definition Advanced_skipForward :: "advanced \<Rightarrow> advanced" where
  "Advanced_skipForward w =
     (let newPosition = min (currentTime (a_playerState w) + SEEK_TIME) (duration (a_playerState w))
      in Advanced_seekTo newPosition w)"

definition Advanced_skipBackward :: "advanced \<Rightarrow> advanced" where
  "Advanced_skipBackward w =
     (let newPosition = max (currentTime (a_playerState w) - SEEK_TIME) 0
      in Advanced_seekTo newPosition w)"

text \<open>The press on the transparent area that is rendered while the controls are hidden.\<close>

definition forceShowControls :: "advanced \<Rightarrow> advanced" where
  "forceShowControls w = clearRef (a_controlsTimeoutRef w) (w\<lparr>a_showControls := True\<rparr>)"

text \<open>\<open>onSlidingStart\<close> of the progress slider; its \<open>onValueChange\<close> is \<open>seekTo\<close>.\<close>

definition Advanced_onSlidingStart :: "version \<Rightarrow> advanced \<Rightarrow> advanced" where
  "Advanced_onSlidingStart v w =
     (let w1 = w\<lparr>a_showControls := True\<rparr>
      in case v of Current \<Rightarrow> clearRef (a_controlsTimeoutRef w1) w1 | Legacy \<Rightarrow> w1)"

text \<open>
  \<open>handleTap\<close> (\<open>AdvancedVideoPlayer.tsx\<close>, lines 324-354; \<open>part_002\<close>, lines 1275-1303).
  \<open>Date.now()\<close> is the scheduler's clock; \<open>tapX\<close> is \<open>event.nativeEvent.locationX\<close>.
\<close>

definition Advanced_handleTap :: "version \<Rightarrow> number \<Rightarrow> number \<Rightarrow> advanced \<Rightarrow> advanced" where
  "Advanced_handleTap v screenWidth tapX w =
     (let w1 = (case a_doubleTapTimeoutRef w of
                  None \<Rightarrow> w
                | Some i \<Rightarrow> (clearTimeout i w)\<lparr>a_doubleTapTimeoutRef := None\<rparr>)
      in if a_lastTap w1 \<noteq> 0 \<and> int (now w1) - int (a_lastTap w1) < int (DOUBLE_PRESS_DELAY v)
         then
           (let w2 = (if tapX < screenWidth / 3 then Advanced_skipBackward w1
                      else if tapX > (screenWidth * 2) / 3 then Advanced_skipForward w1
                      else Advanced_togglePlayPause v w1)
            in w2\<lparr>a_lastTap := 0\<rparr>)
         else
           (let w2 = (case v of Current \<Rightarrow> w1\<lparr>a_showControls := True\<rparr> | Legacy \<Rightarrow> w1);
                cb = (case v of Current \<Rightarrow> ToggleControls | Legacy \<Rightarrow> SetControls (\<not> a_showControls w));
                w3 = (setTimeout cb (DOUBLE_PRESS_DELAY v) w2)\<lparr>a_doubleTapTimeoutRef := Some (nextId w2)\<rparr>
            in w3\<lparr>a_lastTap := now w\<rparr>))"

text \<open>
  Which handler a press on the video reaches (a press that hits none of the buttons).
  \<open>handleTap\<close> is the \<open>onPress\<close> of the touchable that wraps the \<open>Video\<close> element.  In
  the current copy a transparent touchable that covers the video is rendered above it
  while the controls are hidden (\<open>AdvancedVideoPlayer.tsx\<close>, lines 675-689); it takes
  the press, with \<open>forceShowControls\<close>, and \<open>handleTap\<close> is not called.  The older copy
  has no such area.
\<close>

definition Advanced_onPress :: "version \<Rightarrow> number \<Rightarrow> number \<Rightarrow> advanced \<Rightarrow> advanced" where
  "Advanced_onPress v screenWidth tapX w =
     (case v of
        Current \<Rightarrow>
          (if a_showControls w then Advanced_handleTap Current screenWidth tapX w
           else forceShowControls w)
      | Legacy \<Rightarrow> Advanced_handleTap Legacy screenWidth tapX w)"

text \<open>
  The props given to the \<open>Video\<close> element at each render: \<open>paused\<close>, which is how this
  component tells the engine to play or to pause (\<open>paused={!playerState.isPlaying}\<close>,
  line 423), and \<open>maxBitRate\<close>; and the NetInfo listener.
\<close>

definition Advanced_paused_prop :: "advanced \<Rightarrow> bool" where
  "Advanced_paused_prop w = (\<not> isPlaying (a_playerState w))"

definition Advanced_netListener :: "NetInfoState \<Rightarrow> advanced \<Rightarrow> advanced" where
  "Advanced_netListener state w =
     (if isConnected state
      then w\<lparr>a_networkStatus := (if net_type state = [] then ''unknown'' else net_type state)\<rparr>
      else w\<lparr>a_networkStatus := ''offline'', a_error := Some ''No internet connection''\<rparr>)"

definition Advanced_maxBitRate :: "advanced \<Rightarrow> nat option" where
  "Advanced_maxBitRate w = (if a_networkStatus w = ''wifi'' then None else Some 1000000)"

subsection \<open>Timer callbacks\<close>

definition Advanced_callback :: "adv_cb \<Rightarrow> advanced \<Rightarrow> advanced" where
  "Advanced_callback cb w =
     (case cb of
        ToggleControls \<Rightarrow>
          w\<lparr>a_showControls := \<not> a_showControls w, a_doubleTapTimeoutRef := None,
            a_toggles := Suc (a_toggles w)\<rparr>
      | SetControls b \<Rightarrow>
          w\<lparr>a_showControls := b, a_doubleTapTimeoutRef := None, a_toggles := Suc (a_toggles w)\<rparr>
      | ForceShow \<Rightarrow> w\<lparr>a_showControls := True\<rparr>
      | AutoHide c \<Rightarrow> (if c then w\<lparr>a_showControls := False\<rparr> else w))"

definition Advanced_fire :: "version \<Rightarrow> adv_cb \<Rightarrow> advanced \<Rightarrow> advanced" where
  "Advanced_fire v cb w = Advanced_effects v w (Advanced_callback cb w)"

subsection \<open>Words for the statements about taps\<close>

text \<open>The callbacks of the single-tap timer.\<close>

fun is_tap :: "adv_cb \<Rightarrow> bool" where
  "is_tap ToggleControls = True"
| "is_tap (SetControls b) = True"
| "is_tap ForceShow = False"
| "is_tap (AutoHide c) = False"



section \<open>ProVideoPlayer\<close>

text \<open>
  \<open>unnamed/part_002\<close>, lines 232-1009.  Times are in seconds here.  The callbacks:
  the debounced seek holds the clamped time, the delayed progress update holds the
  reported time and the duration the handler's closure saw, and the seek that follows a
  quality change holds the position captured at the change.
\<close>

datatype pro_cb =
    SeekCommit number
  | ProgressApply number number
  | QualitySeek number

text \<open>
  \<open>p_engine\<close> and \<open>p_host\<close> record the calls on the engine and of the host's callback.
  The hiding timer of the controls and the animations are left out.
\<close>

record pro = "pro_cb sched" +
  p_isPlaying :: bool
  p_showControls :: bool
  p_isLoading :: bool
  p_isBuffering :: bool
  p_error :: "string option"
  p_duration :: number
  p_currentTime :: number
  p_seekTime :: number
  p_isSeeking :: bool
  p_selectedQualityIndex :: nat
  p_showQualityMenu :: bool
  p_networkType :: string
  p_seekTimeoutRef :: "nat option"
  p_progressUpdateTimeoutRef :: "nat option"
  p_videoRef :: bool
  p_onProgressCallback :: bool
  p_engine :: "engine_cmd list"
  p_host :: "(number \<times> number) list"

definition showControlsAnimated :: "pro \<Rightarrow> pro" where
  "showControlsAnimated w = w\<lparr>p_showControls := True\<rparr>"

definition Pro_onLoad :: "number \<Rightarrow> pro \<Rightarrow> pro" where
  "Pro_onLoad data_duration w = w\<lparr>p_isLoading := False, p_error := None, p_duration := data_duration\<rparr>"

definition Pro_onProgress :: "number \<Rightarrow> pro \<Rightarrow> pro" where
  "Pro_onProgress data_currentTime w =
     (if \<not> p_isSeeking w then
        (let w1 = clearRef (p_progressUpdateTimeoutRef w) w
         in (setTimeout (ProgressApply data_currentTime (p_duration w)) 100 w1)
              \<lparr>p_progressUpdateTimeoutRef := Some (nextId w1)\<rparr>)
      else w)"

definition Pro_togglePlayPause :: "pro \<Rightarrow> pro" where
  "Pro_togglePlayPause w = showControlsAnimated (w\<lparr>p_isPlaying := \<not> p_isPlaying w\<rparr>)"

definition Pro_seekTo :: "number \<Rightarrow> pro \<Rightarrow> pro" where
  "Pro_seekTo time w =
     (let clampedTime = max 0 (min time (p_duration w));
          w1 = w\<lparr>p_seekTime := clampedTime\<rparr>;
          w2 = clearRef (p_seekTimeoutRef w1) w1
      in (setTimeout (SeekCommit clampedTime) 150 w2)\<lparr>p_seekTimeoutRef := Some (nextId w2)\<rparr>)"

definition handleSliderStart :: "pro \<Rightarrow> pro" where
  "handleSliderStart w = showControlsAnimated (w\<lparr>p_isSeeking := True\<rparr>)"

definition handleSliderChange :: "number \<Rightarrow> pro \<Rightarrow> pro" where
  "handleSliderChange val w = w\<lparr>p_seekTime := val\<rparr>"

definition handleSliderComplete :: "number \<Rightarrow> pro \<Rightarrow> pro" where
  "handleSliderComplete val w = Pro_seekTo val w"

definition Pro_skipForward :: "pro \<Rightarrow> pro" where
  "Pro_skipForward w =
     (let newTime = min (p_currentTime w + 10) (p_duration w)
      in showControlsAnimated (Pro_seekTo newTime w))"

definition Pro_skipBackward :: "pro \<Rightarrow> pro" where
  "Pro_skipBackward w =
     (let newTime = max (p_currentTime w - 10) 0
      in showControlsAnimated (Pro_seekTo newTime w))"

definition changeQuality :: "nat \<Rightarrow> pro \<Rightarrow> pro" where
  "changeQuality index w =
     (let currentPosition = (if p_isSeeking w then p_seekTime w else p_currentTime w);
          w1 = w\<lparr>p_selectedQualityIndex := index, p_showQualityMenu := False, p_isLoading := True\<rparr>
      in setTimeout (QualitySeek currentPosition) 500 w1)"

definition Pro_netListener :: "NetInfoState \<Rightarrow> pro \<Rightarrow> pro" where
  "Pro_netListener state w =
     (if isConnected state
      then (let w1 = w\<lparr>p_networkType := (if net_type state = [] then ''unknown'' else net_type state)\<rparr>
            in if p_error w = Some ''No internet connection'' then w1\<lparr>p_error := None\<rparr> else w1)
      else w\<lparr>p_networkType := ''offline'', p_error := Some ''No internet connection''\<rparr>)"

definition Pro_maxBitRate :: "pro \<Rightarrow> nat option" where
  "Pro_maxBitRate w = (if p_networkType w = ''wifi'' then None else Some 2000000)"

definition Pro_callback :: "pro_cb \<Rightarrow> pro \<Rightarrow> pro" where
  "Pro_callback cb w =
     (case cb of
        SeekCommit clampedTime \<Rightarrow>
          w\<lparr>p_engine := call (p_videoRef w) (Seek clampedTime) (p_engine w),
            p_currentTime := clampedTime, p_isSeeking := False\<rparr>
      | ProgressApply t d \<Rightarrow>
          w\<lparr>p_currentTime := t,
            p_host := (if p_onProgressCallback w then p_host w @ [(t, d)] else p_host w)\<rparr>
      | QualitySeek currentPosition \<Rightarrow>
          w\<lparr>p_engine := call (p_videoRef w) (Seek currentPosition) (p_engine w)\<rparr>)"

text \<open>A burst of seek requests: each one follows the one before after the given gap.\<close>

fun seek_burst :: "(nat \<times> number) list \<Rightarrow> pro \<Rightarrow> pro" where
  "seek_burst [] w = w"
| "seek_burst (r # rs) w = seek_burst rs (Pro_seekTo (snd r) (advance Pro_callback (fst r) w))"

text \<open>
  The position that the slider and the time label show:
  \<open>isSeeking ? seekTime : currentTime\<close>.
\<close>

definition Pro_displayed :: "pro \<Rightarrow> number" where
  "Pro_displayed w = (if p_isSeeking w then p_seekTime w else p_currentTime w)"


subsection \<open>Words for the statements about timers and scrubbing\<close>

text \<open>The callback of a delayed progress update.\<close>

fun is_progress :: "pro_cb \<Rightarrow> bool" where
  "is_progress (ProgressApply t d) = True"
| "is_progress (SeekCommit c) = False"
| "is_progress (QualitySeek p) = False"

text \<open>The callback of the debounced seek.\<close>

fun is_commit :: "pro_cb \<Rightarrow> bool" where
  "is_commit (SeekCommit c) = True"
| "is_commit (ProgressApply t d) = False"
| "is_commit (QualitySeek p) = False"

text \<open>The time that the callback of a seek timer asks the engine for.\<close>

fun seek_target :: "pro_cb \<Rightarrow> number" where
  "seek_target (SeekCommit c) = c"
| "seek_target (QualitySeek p) = p"
| "seek_target (ProgressApply t d) = t"

text \<open>What no timer callback of this component changes.\<close>

definition Pro_fixed :: "pro \<Rightarrow> bool \<times> bool \<times> bool \<times> nat \<times> number \<times> nat" where
  "Pro_fixed s =
     (p_videoRef s, p_isLoading s, p_isPlaying s, p_selectedQualityIndex s, p_duration s, nextId s)"

text \<open>
  What happens while the slider is held, and between its release and the debounced
  seek: time passes, the slider reports a value (\<open>onValueChange\<close>), the engine reports
  a position (\<open>onProgress\<close>).
\<close>

datatype scrub_ev =
    Wait nat
  | Move number
  | Report number

fun scrub :: "scrub_ev list \<Rightarrow> pro \<Rightarrow> pro" where
  "scrub [] w = w"
| "scrub (Wait g # es) w = scrub es (advance Pro_callback g w)"
| "scrub (Move val # es) w = scrub es (handleSliderChange val w)"
| "scrub (Report t # es) w = scrub es (Pro_onProgress t w)"

text \<open>The time that passes during the events.\<close>

fun waits :: "scrub_ev list \<Rightarrow> nat" where
  "waits [] = 0"
| "waits (Wait g # es) = g + waits es"
| "waits (Move val # es) = waits es"
| "waits (Report t # es) = waits es"

text \<open>The last value that the slider has reported, \<open>x\<close> if it has reported none.\<close>

fun shown :: "scrub_ev list \<Rightarrow> number \<Rightarrow> number" where
  "shown [] x = x"
| "shown (Wait g # es) x = shown es x"
| "shown (Move val # es) x = shown es val"
| "shown (Report t # es) x = shown es x"
section \<open>Initial states\<close>

text \<open>
  The values the components give to \<open>useState\<close> and \<open>useRef\<close>, with the \<open>Video\<close>
  element mounted (\<open>videoRef.current\<close> set), the host's \<open>onProgress\<close> prop given, and no
  timer pending.
\<close>

definition PlayerState_init :: PlayerState where
  "PlayerState_init =
     \<lparr>isPlaying = False, currentTime = 0, duration = 0, volume = 1.0, isMuted = False,
      isFullscreen = False\<rparr>"

definition Native_init :: native where
  "Native_init =
     \<lparr>n_playerState = PlayerState_init, n_videoRef = True, n_onProgressCallback = Some 0,
      n_engine = [], n_host = []\<rparr>"

definition Enhanced_init :: enhanced where
  "Enhanced_init =
     \<lparr>now = 0, nextId = 1, pending = [],
      e_playerState = PlayerState_init, e_isLoading = True, e_error = None,
      e_isBuffering = False, e_bufferingTimeout = None, e_videoRef = True,
      e_onProgress = Some 0, e_engine = [], e_host = []\<rparr>"

definition Advanced_init :: advanced where
  "Advanced_init =
     \<lparr>now = 0, nextId = 1, pending = [],
      a_playerState = PlayerState_init, a_showControls = True, a_isLoading = True,
      a_error = None, a_isBuffering = False, a_showSpeedMenu = False,
      a_showQualityMenu = False, a_networkStatus = ''unknown'', a_lastTap = 0,
      a_controlsTimeoutRef = None, a_doubleTapTimeoutRef = None,
      a_controlsVisibilityTimeoutRef = None, a_videoRef = True,
      a_onProgressCallback = Some 0, a_engine = [], a_host = [], a_toggles = 0\<rparr>"

definition Pro_init :: pro where
  "Pro_init =
     \<lparr>now = 0, nextId = 1, pending = [],
      p_isPlaying = False, p_showControls = True, p_isLoading = True, p_isBuffering = False,
      p_error = None, p_duration = 0, p_currentTime = 0, p_seekTime = 0, p_isSeeking = False,
      p_selectedQualityIndex = 0, p_showQualityMenu = False, p_networkType = ''unknown'',
      p_seekTimeoutRef = None, p_progressUpdateTimeoutRef = None, p_videoRef = True,
      p_onProgressCallback = True, p_engine = [], p_host = []\<rparr>"

section \<open>States used in examples\<close>

text \<open>A stream that plays over wifi, loaded, 30 s into 60 s.\<close>

definition Advanced_playing_on_wifi :: advanced where
  "Advanced_playing_on_wifi =
     Advanced_init\<lparr>a_playerState := PlayerState_init\<lparr>isPlaying := True, currentTime := 30000,
                                                      duration := 60000\<rparr>,
                   a_isLoading := False, a_networkStatus := ''wifi''\<rparr>"

text \<open>ProVideoPlayer, loaded and playing, 120 s into 600 s.\<close>

definition Pro_playing_at_120 :: pro where
  "Pro_playing_at_120 =
     Pro_init\<lparr>p_isPlaying := True, p_isLoading := False, p_duration := 600, p_currentTime := 120\<rparr>"

text \<open>EnhancedVideoPlayer, loaded and playing, 120 s into 600 s.\<close>

definition Enhanced_playing_at_120 :: enhanced where
  "Enhanced_playing_at_120 =
     Enhanced_init\<lparr>e_playerState := PlayerState_init\<lparr>isPlaying := True, currentTime := 120000,
                                                       duration := 600000\<rparr>,
                   e_isLoading := False\<rparr>"

text \<open>The status of a loaded stream that buffers at 120 s.\<close>

definition buffering_at_120 :: AVPlaybackStatus where
  "buffering_at_120 =
     \<lparr>isLoaded = True, st_error = None, st_isBuffering = True, st_isPlaying = True,
      positionMillis = 120000, durationMillis = Some 600000, st_volume = 1.0, st_isMuted = False\<rparr>"

text \<open>
  AdvancedVideoPlayer, loaded and paused at the start of 60 s, controls shown, no timer
  pending, one second after the epoch of the clock.
\<close>

definition Advanced_paused :: advanced where
  "Advanced_paused =
     Advanced_init\<lparr>now := 1000, a_playerState := PlayerState_init\<lparr>duration := 60000\<rparr>,
                   a_isLoading := False\<rparr>"


text \<open>EnhancedVideoPlayer, loaded and paused, 120 s into 600 s.\<close>

definition Enhanced_paused_at_120 :: enhanced where
  "Enhanced_paused_at_120 =
     Enhanced_init\<lparr>e_playerState := PlayerState_init\<lparr>currentTime := 120000, duration := 600000\<rparr>,
                   e_isLoading := False\<rparr>"

text \<open>The status of a loaded live stream, 15 s in, whose duration expo-av does not know.\<close>

definition live_at_15 :: AVPlaybackStatus where
  "live_at_15 =
     \<lparr>isLoaded = True, st_error = None, st_isBuffering = False, st_isPlaying = True,
      positionMillis = 15000, durationMillis = None, st_volume = 1.0, st_isMuted = False\<rparr>"

section \<open>Facts about timers\<close>

lemma run_due_inv:
  assumes "I w"
    and "\<And>u w. I w \<Longrightarrow> u \<in> set (pending w) \<Longrightarrow> fst (snd u) \<le> now w \<Longrightarrow>
           I (fire (snd (snd u)) (clearTimeout (fst u) w))"
  shows "I (run_due fire ids w)"
  using assms(1)
proof (induction ids arbitrary: w)
  case Nil
  then show ?case by simp
next
  case (Cons i ids)
  show ?case
  proof (cases "find (\<lambda>u. fst u = i \<and> fst (snd u) \<le> now w) (pending w)")
    case None
    then show ?thesis using Cons by simp
  next
    case (Some u)
    then have "u \<in> set (pending w)" "fst u = i" "fst (snd u) \<le> now w"
      by (auto simp: find_Some_iff)
    then have "I (fire (snd (snd u)) (clearTimeout i w))"
      using assms(2) [of w u] Cons.prems by simp
    then show ?thesis using Cons.IH Some by simp
  qed
qed

text \<open>
  An invariant of the passage of time up to \<open>T\<close>: it has to survive the step of the
  clock and the run of any timer that is due, and callbacks must leave the clock alone.
\<close>

lemma advance_inv:
  assumes "I w" and "now w + d \<le> T"
    and clock: "\<And>w. I w \<Longrightarrow> now w < T \<Longrightarrow> I (w\<lparr>now := Suc (now w)\<rparr>)"
    and run: "\<And>u w. I w \<Longrightarrow> now w \<le> T \<Longrightarrow> u \<in> set (pending w) \<Longrightarrow> fst (snd u) \<le> now w \<Longrightarrow>
           I (fire (snd (snd u)) (clearTimeout (fst u) w))
           \<and> now (fire (snd (snd u)) (clearTimeout (fst u) w)) = now w"
  shows "I (advance fire d w) \<and> now (advance fire d w) = now w + d"
  using assms(1,2)
proof (induction d arbitrary: w)
  case 0
  then show ?case by simp
next
  case (Suc d)
  let ?w' = "w\<lparr>now := Suc (now w)\<rparr>"
  have "I ?w' \<and> now ?w' = Suc (now w)"
    using clock [of w] Suc.prems by simp
  then have "I (tick fire w) \<and> now (tick fire w) = Suc (now w)"
    unfolding tick_def Let_def
    by (rule run_due_inv) (use run Suc.prems(2) in auto)
  then show ?case
    using Suc.IH [of "tick fire w"] Suc.prems(2) by simp
qed

lemma advance_add: "advance fire (a + b) w = advance fire b (advance fire a w)"
  by (induction a arbitrary: w) simp_all

lemma tick_idle:
  assumes "\<forall>t \<in> set (pending w). Suc (now w) < fst (snd t)"
  shows "tick fire w = w\<lparr>now := Suc (now w)\<rparr>"
proof -
  have "filter (\<lambda>t. fst (snd t) \<le> Suc (now w)) (pending w) = []"
    using assms by (auto simp: filter_empty_conv)
  then show ?thesis by (simp add: tick_def)
qed

lemma advance_idle:
  assumes "\<forall>t \<in> set (pending w). now w + d < fst (snd t)"
  shows "advance fire d w = w\<lparr>now := now w + d\<rparr>"
  using assms
proof (induction d arbitrary: w)
  case 0
  then show ?case by simp
next
  case (Suc d)
  have t: "tick fire w = w\<lparr>now := Suc (now w)\<rparr>"
    by (rule tick_idle) (use Suc.prems in auto)
  have "advance fire d (w\<lparr>now := Suc (now w)\<rparr>) = (w\<lparr>now := Suc (now w)\<rparr>)\<lparr>now := now (w\<lparr>now := Suc (now w)\<rparr>) + d\<rparr>"
    by (rule Suc.IH) (use Suc.prems in auto)
  then show ?case by (simp add: t)
qed

lemma tick_single:
  assumes "pending w = [(i, Suc (now w), cb)]"
  shows "tick fire w = fire cb (w\<lparr>now := Suc (now w), pending := []\<rparr>)"
  using assms by (simp add: tick_def clearTimeout_def)

text \<open>A lone pending timer runs when it is due, and time goes on from the state it leaves.\<close>

lemma advance_single:
  assumes p: "pending w = [(i, due, cb)]" and lo: "now w < due" and hi: "due \<le> now w + d"
  shows "advance fire d w =
         advance fire (now w + d - due) (fire cb (w\<lparr>now := due, pending := []\<rparr>))"
proof -
  obtain a where a: "due = Suc (now w + a)"
    using lo less_iff_Suc_add by blast
  have "a < d" using hi a by simp
  then obtain b where d: "d = Suc (a + b)"
    using less_iff_Suc_add by blast
  have idle: "advance fire a w = w\<lparr>now := now w + a\<rparr>"
    by (rule advance_idle) (simp add: p a)
  have one: "tick fire (w\<lparr>now := now w + a\<rparr>) = fire cb (w\<lparr>now := due, pending := []\<rparr>)"
    using tick_single [of "w\<lparr>now := now w + a\<rparr>" i cb fire] by (simp add: p a)
  have "advance fire d w = advance fire (Suc b) (advance fire a w)"
    using advance_add [of fire a "Suc b" w] by (simp only: d add_Suc_right)
  also have "\<dots> = advance fire b (tick fire (w\<lparr>now := now w + a\<rparr>))"
    by (simp only: idle advance.simps)
  also have "\<dots> = advance fire b (fire cb (w\<lparr>now := due, pending := []\<rparr>))"
    by (simp only: one)
  finally show ?thesis by (simp add: a d)
qed

section \<open>The progress callback is guarded by the duration\<close>

lemma progress_effect_new_call:
  assumes "x \<in> set (progress_effect cb0 cb old new calls)" and "x \<notin> set calls"
  shows "x = (currentTime new, duration new) \<and> 0 < duration new"
  using assms by (auto simp: progress_effect_def split: if_splits)

lemma fallback_effect_host [simp]: "a_host (fallback_effect old w) = a_host w"
  by (simp add: fallback_effect_def clearRef_def clearTimeout_def setTimeout_def Let_def
      split: option.splits)

lemma fallback_effect_playerState [simp]: "a_playerState (fallback_effect old w) = a_playerState w"
  by (simp add: fallback_effect_def clearRef_def clearTimeout_def setTimeout_def Let_def
      split: option.splits)

lemma fallback_effect_onProgressCallback [simp]:
  "a_onProgressCallback (fallback_effect old w) = a_onProgressCallback w"
  by (simp add: fallback_effect_def clearRef_def clearTimeout_def setTimeout_def Let_def
      split: option.splits)

lemma autohide_effect_host [simp]: "a_host (autohide_effect v old w) = a_host w"
  by (simp add: autohide_effect_def clearRef_def clearTimeout_def setTimeout_def Let_def
      split: option.splits version.splits)

lemma autohide_effect_playerState [simp]: "a_playerState (autohide_effect v old w) = a_playerState w"
  by (simp add: autohide_effect_def clearRef_def clearTimeout_def setTimeout_def Let_def
      split: option.splits version.splits)

lemma autohide_effect_onProgressCallback [simp]:
  "a_onProgressCallback (autohide_effect v old w) = a_onProgressCallback w"
  by (simp add: autohide_effect_def clearRef_def clearTimeout_def setTimeout_def Let_def
      split: option.splits version.splits)

lemma Advanced_effects_host:
  "a_host (Advanced_effects v old w) =
     progress_effect (a_onProgressCallback old) (a_onProgressCallback w) (a_playerState old) (a_playerState w) (a_host w)"
  by (cases v) (simp_all add: Advanced_effects_def Advanced_progress_effect_def Let_def)

lemma Enhanced_effects_host:
  "e_host (Enhanced_effects old w) =
     progress_effect (e_onProgress old) (e_onProgress w) (e_playerState old) (e_playerState w) (e_host w)"
  by (simp add: Enhanced_effects_def clearRef_def clearTimeout_def Let_def split: option.splits)

text \<open>
  Claim C10.  In AdvancedVideoPlayer (both copies), NativeVideoPlayer and
  EnhancedVideoPlayer the host's progress callback is called by the progress effect
  only, and every call that a run of the effects adds to what the host has received
  carries the current position and a duration that is greater than zero: the host never
  receives a pair with a duration that is zero or negative.
\<close>

theorem C10_progress_callback_needs_positive_duration:
  "(x \<in> set (a_host (Advanced_effects v old_a a)) \<and> x \<notin> set (a_host a) \<longrightarrow>
      x = (currentTime (a_playerState a), duration (a_playerState a)) \<and> 0 < snd x)
   \<and> (y \<in> set (n_host (Native_effects old_n n)) \<and> y \<notin> set (n_host n) \<longrightarrow>
      y = (currentTime (n_playerState n), duration (n_playerState n)) \<and> 0 < snd y)
   \<and> (z \<in> set (e_host (Enhanced_effects old_e e)) \<and> z \<notin> set (e_host e) \<longrightarrow>
      z = (currentTime (e_playerState e), duration (e_playerState e)) \<and> 0 < snd z)"
proof (intro conjI impI)
  assume "x \<in> set (a_host (Advanced_effects v old_a a)) \<and> x \<notin> set (a_host a)"
  then have "x = (currentTime (a_playerState a), duration (a_playerState a))
      \<and> 0 < duration (a_playerState a)"
    using progress_effect_new_call by (simp add: Advanced_effects_host) blast
  then show "x = (currentTime (a_playerState a), duration (a_playerState a))" and "0 < snd x"
    by simp_all
next
  assume "y \<in> set (n_host (Native_effects old_n n)) \<and> y \<notin> set (n_host n)"
  then have "y = (currentTime (n_playerState n), duration (n_playerState n))
      \<and> 0 < duration (n_playerState n)"
    using progress_effect_new_call by (simp add: Native_effects_def) blast
  then show "y = (currentTime (n_playerState n), duration (n_playerState n))" and "0 < snd y"
    by simp_all
next
  assume "z \<in> set (e_host (Enhanced_effects old_e e)) \<and> z \<notin> set (e_host e)"
  then have "z = (currentTime (e_playerState e), duration (e_playerState e))
      \<and> 0 < duration (e_playerState e)"
    using progress_effect_new_call by (simp add: Enhanced_effects_host) blast
  then show "z = (currentTime (e_playerState e), duration (e_playerState e))" and "0 < snd z"
    by simp_all
qed

theorem C10_witness:
  "(5000, 60000) \<in> set (a_host (Advanced_effects Current (Advanced_onLoad Current 60 Advanced_init)
        (Advanced_onProgress 5 (Advanced_onLoad Current 60 Advanced_init))))
   \<and> (5000, 60000) \<notin> set (a_host (Advanced_onProgress 5 (Advanced_onLoad Current 60 Advanced_init)))
   \<and> (5000, 60000) \<in> set (n_host (Native_effects (Native_onLoad 60 Native_init)
        (Native_onProgress 5 (Native_onLoad 60 Native_init))))
   \<and> (5000, 60000) \<notin> set (n_host (Native_onProgress 5 (Native_onLoad 60 Native_init)))
   \<and> (5000, 60000) \<in> set (e_host (Enhanced_effects Enhanced_init
        (Enhanced_init\<lparr>e_playerState := PlayerState_init\<lparr>currentTime := 5000, duration := 60000\<rparr>\<rparr>)))
   \<and> (5000, 60000) \<notin> set (e_host
        (Enhanced_init\<lparr>e_playerState := PlayerState_init\<lparr>currentTime := 5000, duration := 60000\<rparr>\<rparr>))
   \<and> (0::real) < snd (5000::real, 60000::real)"
proof -
  let ?oa = "Advanced_onLoad Current 60 Advanced_init"
  let ?a = "Advanced_onProgress 5 ?oa"
  let ?on = "Native_onLoad 60 Native_init"
  let ?n = "Native_onProgress 5 ?on"
  let ?e = "Enhanced_init\<lparr>e_playerState := PlayerState_init\<lparr>currentTime := 5000, duration := 60000\<rparr>\<rparr>"
  have ha: "(5000, 60000) \<in> set (a_host (Advanced_effects Current ?oa ?a))
      \<and> (5000, 60000) \<notin> set (a_host ?a)"
    by (simp add: Advanced_effects_host progress_effect_def Advanced_onProgress_def
        Advanced_onLoad_def Advanced_init_def PlayerState_init_def)
  have hn: "(5000, 60000) \<in> set (n_host (Native_effects ?on ?n))
      \<and> (5000, 60000) \<notin> set (n_host ?n)"
    by (simp add: Native_effects_def progress_effect_def Native_onProgress_def
        Native_onLoad_def Native_init_def PlayerState_init_def)
  have he: "(5000, 60000) \<in> set (e_host (Enhanced_effects Enhanced_init ?e))
      \<and> (5000, 60000) \<notin> set (e_host ?e)"
    by (simp add: Enhanced_effects_host progress_effect_def Enhanced_init_def PlayerState_init_def)
  from C10_progress_callback_needs_positive_duration
    [of "(5000::real, 60000::real)" Current ?oa ?a "(5000::real, 60000::real)" ?on ?n
       "(5000::real, 60000::real)" Enhanced_init ?e]
  have "(0::real) < snd (5000::real, 60000::real)" using ha by blast
  with ha hn he show ?thesis by blast
qed

text \<open>
  ProVideoPlayer is not one of these three components.  It calls the host from its
  delayed progress update, with the duration that the handler's closure saw and without
  a guard: before the stream has loaded that duration is 0.
\<close>

lemma Pro_progress_callback_unguarded:
  "p_host (advance Pro_callback 100 (Pro_onProgress 5 Pro_init)) = [(5, 0)]"
proof -
  let ?w = "Pro_onProgress 5 Pro_init"
  have p: "pending ?w = [(1, 100, ProgressApply 5 0)]" and n: "now ?w = 0"
    by (simp_all add: Pro_onProgress_def Pro_init_def clearRef_def setTimeout_def Let_def)
  have "advance Pro_callback 100 ?w =
        advance Pro_callback (now ?w + 100 - 100) (Pro_callback (ProgressApply 5 0) (?w\<lparr>now := 100, pending := []\<rparr>))"
    by (rule advance_single [OF p]) (simp_all add: n)
  then have "advance Pro_callback 100 ?w = Pro_callback (ProgressApply 5 0) (?w\<lparr>now := 100, pending := []\<rparr>)"
    by (simp add: n)
  then show ?thesis
    by (simp add: Pro_callback_def Pro_onProgress_def Pro_init_def clearRef_def setTimeout_def Let_def)
qed

section \<open>What the engine is asked to seek to\<close>

text \<open>
  Claim C1, as the code has it.  \<open>seekTo\<close> of AdvancedVideoPlayer clamps: with a
  duration \<open>d \<ge> 0\<close> (in milliseconds) the engine is asked for \<open>0\<close> if \<open>t < 0\<close>, for
  \<open>d\<close> if \<open>t > d\<close> and for \<open>t\<close> otherwise (divided by 1000, the engine counts
  seconds), and \<open>currentTime\<close> becomes that value.  \<open>seekTo\<close> of NativeVideoPlayer and
  of EnhancedVideoPlayer hands the target to the engine as it is.
\<close>

theorem C1_seekTo_position:
  assumes "0 \<le> duration (a_playerState a)" and "a_videoRef a" and "n_videoRef n" and "e_videoRef e"
  shows "a_engine (Advanced_seekTo t a) =
           a_engine a @ [Seek ((if t < 0 then 0
                                else if t > duration (a_playerState a) then duration (a_playerState a)
                                else t) / 1000)]
         \<and> currentTime (a_playerState (Advanced_seekTo t a)) =
             (if t < 0 then 0
              else if t > duration (a_playerState a) then duration (a_playerState a) else t)
         \<and> n_engine (Native_seekTo t n) = n_engine n @ [Seek (t / 1000)]
         \<and> e_engine (Enhanced_seekTo rejects t e) = e_engine e @ [SetPositionAsync t]"
  using assms
  by (auto simp: Advanced_seekTo_def Native_seekTo_def Enhanced_seekTo_def call_def Let_def
      max_def min_def)

theorem C1_witness:
  "0 \<le> duration (a_playerState (Advanced_onLoad Current 60 Advanced_init))
   \<and> a_videoRef (Advanced_onLoad Current 60 Advanced_init)
   \<and> n_videoRef Native_init \<and> e_videoRef Enhanced_init
   \<and> a_engine (Advanced_seekTo 75000 (Advanced_onLoad Current 60 Advanced_init)) = [Seek 60]
   \<and> n_engine (Native_seekTo 75000 Native_init) = [Seek 75]
   \<and> e_engine (Enhanced_seekTo False 75000 Enhanced_init) = [SetPositionAsync 75000]"
proof -
  let ?a = "Advanced_onLoad Current 60 Advanced_init"
  have h: "0 \<le> duration (a_playerState ?a)" "a_videoRef ?a" "n_videoRef Native_init"
      "e_videoRef Enhanced_init"
    by (simp_all add: Advanced_onLoad_def Advanced_init_def PlayerState_init_def Native_init_def
        Enhanced_init_def)
  have d: "duration (a_playerState ?a) = 60000" "a_engine ?a = []"
    by (simp_all add: Advanced_onLoad_def Advanced_init_def PlayerState_init_def)
  show ?thesis
    using h C1_seekTo_position [OF h, of 75000 False]
    by (simp add: d Native_init_def Enhanced_init_def)
qed

text \<open>
  The claim as the specification states it fails for NativeVideoPlayer and
  EnhancedVideoPlayer: with a duration of 60 s, a target of -1 s reaches the engine of
  the first as -1 s (not 0), and a target of 75 s reaches the engine of the second as
  75 s (not 60 s).  The buttons reach such a target too: on a live stream, 15 s in, for
  which the state holds the duration 0, the skip-backward button of EnhancedVideoPlayer
  asks the engine for 5 s.
\<close>

theorem C1_counterexample:
  "duration (n_playerState (Native_onLoad 60 Native_init)) = 60000
   \<and> n_engine (Native_seekTo (- 1000) (Native_onLoad 60 Native_init)) = [Seek (- 1)]
   \<and> Seek (- 1) \<noteq> Seek 0
   \<and> duration (e_playerState (Enhanced_init\<lparr>e_playerState := PlayerState_init\<lparr>duration := 60000\<rparr>\<rparr>)) = 60000
   \<and> e_engine (Enhanced_seekTo False 75000
        (Enhanced_init\<lparr>e_playerState := PlayerState_init\<lparr>duration := 60000\<rparr>\<rparr>)) = [SetPositionAsync 75000]
   \<and> SetPositionAsync 75000 \<noteq> SetPositionAsync 60000
   \<and> duration (e_playerState (Enhanced_event (Enhanced_onPlaybackStatusUpdate live_at_15) Enhanced_init)) = 0
   \<and> e_engine (Enhanced_skipBackward False
        (Enhanced_event (Enhanced_onPlaybackStatusUpdate live_at_15) Enhanced_init)) = [SetPositionAsync 5000]"
proof -
  let ?l = "Enhanced_event (Enhanced_onPlaybackStatusUpdate live_at_15) Enhanced_init"
  have l: "duration (e_playerState ?l) = 0" "currentTime (e_playerState ?l) = 15000"
    "e_videoRef ?l" "e_engine ?l = []"
    by (simp_all add: Enhanced_event_def Enhanced_effects_def Enhanced_onPlaybackStatusUpdate_def
        live_at_15_def Enhanced_init_def PlayerState_init_def js_or_def Let_def)
  have "e_engine (Enhanced_skipBackward False ?l) = [SetPositionAsync 5000]"
    by (simp add: Enhanced_skipBackward_def Enhanced_seekTo_def call_def Let_def l)
  with l(1) show ?thesis
    by (simp add: Native_seekTo_def Native_onLoad_def Native_init_def Enhanced_seekTo_def
        Enhanced_init_def PlayerState_init_def call_def)
qed

text \<open>
  In the two players that do not clamp, the skip buttons keep the target within the
  duration as long as the position is.
\<close>

lemma Native_skip_in_range:
  assumes "0 \<le> currentTime (n_playerState n)"
    and "currentTime (n_playerState n) \<le> duration (n_playerState n)" and "n_videoRef n"
  shows "\<exists>p. n_engine (Native_skipForward n) = n_engine n @ [Seek (p / 1000)]
             \<and> 0 \<le> p \<and> p \<le> duration (n_playerState n)"
    and "\<exists>p. n_engine (Native_skipBackward n) = n_engine n @ [Seek (p / 1000)]
             \<and> 0 \<le> p \<and> p \<le> duration (n_playerState n)"
  using assms
  by (auto simp: Native_skipForward_def Native_skipBackward_def Native_seekTo_def call_def Let_def)

section \<open>Play and pause\<close>

text \<open>
  Claim C5, as the code has it.  The players have one \<open>togglePlayPause\<close> and no
  \<open>play()\<close> or \<open>pause()\<close> of their own; the state at the call decides which of the
  two is requested.  In EnhancedVideoPlayer a call asks the engine for exactly one
  thing, \<open>pauseAsync\<close> while the state says playing and \<open>playAsync\<close> while it says
  paused, and leaves \<open>playerState\<close> to the next status update of the engine; so a
  second call that comes before that update asks the engine for the same thing again.
  In AdvancedVideoPlayer a call negates \<open>isPlaying\<close>, and with it the \<open>paused\<close> prop
  that tells the engine to play or to pause; a second call negates it back.
\<close>

theorem C5_togglePlayPause:
  assumes "e_videoRef e"
  shows "e_engine (Enhanced_togglePlayPause r1 e) =
           e_engine e @ [if isPlaying (e_playerState e) then PauseAsync else PlayAsync]
         \<and> e_playerState (Enhanced_togglePlayPause r1 e) = e_playerState e
         \<and> e_engine (Enhanced_togglePlayPause r2 (Enhanced_togglePlayPause r1 e)) =
             e_engine e @ [if isPlaying (e_playerState e) then PauseAsync else PlayAsync,
                           if isPlaying (e_playerState e) then PauseAsync else PlayAsync]
         \<and> isPlaying (a_playerState (Advanced_togglePlayPause v a)) = (\<not> isPlaying (a_playerState a))
         \<and> Advanced_paused_prop (Advanced_togglePlayPause v a) = (\<not> Advanced_paused_prop a)
         \<and> Advanced_paused_prop (Advanced_togglePlayPause v (Advanced_togglePlayPause v a))
             = Advanced_paused_prop a"
  using assms
  by (cases v)
     (simp_all add: Enhanced_togglePlayPause_def Advanced_togglePlayPause_def
        Advanced_paused_prop_def call_def Let_def clearRef_def clearTimeout_def
        split: option.splits)

theorem C5_witness:
  "e_videoRef Enhanced_playing_at_120
   \<and> e_engine (Enhanced_togglePlayPause False Enhanced_playing_at_120) = [PauseAsync]
   \<and> isPlaying (e_playerState (Enhanced_togglePlayPause False Enhanced_playing_at_120))
   \<and> Advanced_paused_prop (Advanced_togglePlayPause Current Advanced_playing_on_wifi)
   \<and> \<not> Advanced_paused_prop (Advanced_togglePlayPause Current
         (Advanced_togglePlayPause Current Advanced_playing_on_wifi))"
proof -
  have h: "e_videoRef Enhanced_playing_at_120"
    by (simp add: Enhanced_playing_at_120_def Enhanced_init_def)
  have k: "isPlaying (e_playerState Enhanced_playing_at_120)"
    "e_engine Enhanced_playing_at_120 = []" "\<not> Advanced_paused_prop Advanced_playing_on_wifi"
    by (simp_all add: Enhanced_playing_at_120_def Enhanced_init_def Advanced_paused_prop_def
        Advanced_playing_on_wifi_def Advanced_init_def)
  show ?thesis
    using h k C5_togglePlayPause [OF h, of False False Current Advanced_playing_on_wifi]
    by simp
qed

text \<open>
  The claim as the specification states it fails for EnhancedVideoPlayer.  The player
  is paused and the play button is pressed: \<open>playAsync\<close> is sent.  The button is
  pressed again before the engine has reported its new status, so that the call is a
  request to play once more, made of an engine that has already been asked to play: a
  second \<open>playAsync\<close> is sent.
\<close>

theorem C5_counterexample:
  "\<not> isPlaying (e_playerState Enhanced_paused_at_120)
   \<and> e_engine (Enhanced_togglePlayPause False Enhanced_paused_at_120) = [PlayAsync]
   \<and> \<not> isPlaying (e_playerState (Enhanced_togglePlayPause False Enhanced_paused_at_120))
   \<and> e_engine (Enhanced_togglePlayPause False
        (Enhanced_togglePlayPause False Enhanced_paused_at_120)) = [PlayAsync, PlayAsync]"
  by (simp add: Enhanced_togglePlayPause_def call_def Let_def Enhanced_paused_at_120_def
      Enhanced_init_def PlayerState_init_def)

section \<open>The bitrate ceiling\<close>

text \<open>
  Claim C9, as the code has it.  The \<open>maxBitRate\<close> that a render gives to the engine's
  \<open>Video\<close> element depends on the current connectivity class only: it is undefined
  exactly when the class is \<open>wifi\<close>, and otherwise 1000000 in AdvancedVideoPlayer and
  2000000 in ProVideoPlayer.  So when NetInfo reports a connected class other than wifi,
  the next render gives the ceiling to the engine, and when it reports wifi the next
  render gives none; no load and no quality switch is waited for.
\<close>

theorem C9_maxBitRate:
  "(Advanced_maxBitRate a = None \<longleftrightarrow> a_networkStatus a = ''wifi'')
   \<and> (Advanced_maxBitRate a \<noteq> None \<longrightarrow> Advanced_maxBitRate a = Some 1000000)
   \<and> (Pro_maxBitRate p = None \<longleftrightarrow> p_networkType p = ''wifi'')
   \<and> (Pro_maxBitRate p \<noteq> None \<longrightarrow> Pro_maxBitRate p = Some 2000000)
   \<and> (isConnected st \<and> net_type st \<noteq> ''wifi'' \<longrightarrow>
        Advanced_maxBitRate (Advanced_netListener st a) = Some 1000000
        \<and> Pro_maxBitRate (Pro_netListener st p) = Some 2000000)
   \<and> (isConnected st \<and> net_type st = ''wifi'' \<longrightarrow>
        Advanced_maxBitRate (Advanced_netListener st a) = None
        \<and> Pro_maxBitRate (Pro_netListener st p) = None)"
  by (simp add: Advanced_maxBitRate_def Pro_maxBitRate_def Advanced_netListener_def
      Pro_netListener_def Let_def)

theorem C9_witness:
  "Advanced_maxBitRate (Advanced_init\<lparr>a_networkStatus := ''cellular''\<rparr>) \<noteq> None
   \<and> Advanced_maxBitRate (Advanced_init\<lparr>a_networkStatus := ''cellular''\<rparr>) = Some 1000000
   \<and> Pro_maxBitRate (Pro_init\<lparr>p_networkType := ''cellular''\<rparr>) \<noteq> None
   \<and> Pro_maxBitRate (Pro_init\<lparr>p_networkType := ''cellular''\<rparr>) = Some 2000000
   \<and> isConnected \<lparr>isConnected = True, net_type = ''cellular''\<rparr>
   \<and> net_type \<lparr>isConnected = True, net_type = ''cellular''\<rparr> \<noteq> ''wifi''
   \<and> Advanced_maxBitRate (Advanced_netListener \<lparr>isConnected = True, net_type = ''cellular''\<rparr>
        (Advanced_init\<lparr>a_networkStatus := ''cellular''\<rparr>)) = Some 1000000
   \<and> isConnected \<lparr>isConnected = True, net_type = ''wifi''\<rparr>
   \<and> net_type \<lparr>isConnected = True, net_type = ''wifi''\<rparr> = ''wifi''
   \<and> Pro_maxBitRate (Pro_netListener \<lparr>isConnected = True, net_type = ''wifi''\<rparr>
        (Pro_init\<lparr>p_networkType := ''cellular''\<rparr>)) = None"
proof -
  let ?a = "Advanced_init\<lparr>a_networkStatus := ''cellular''\<rparr>"
  let ?p = "Pro_init\<lparr>p_networkType := ''cellular''\<rparr>"
  let ?c = "\<lparr>isConnected = True, net_type = ''cellular''\<rparr>"
  let ?w = "\<lparr>isConnected = True, net_type = ''wifi''\<rparr>"
  have h: "Advanced_maxBitRate ?a \<noteq> None" "Pro_maxBitRate ?p \<noteq> None"
    by (simp_all add: Advanced_maxBitRate_def Pro_maxBitRate_def)
  have c: "isConnected ?c \<and> net_type ?c \<noteq> ''wifi''" by simp
  have w: "isConnected ?w \<and> net_type ?w = ''wifi''" by simp
  note t1 = C9_maxBitRate [of ?a ?p ?c] and t2 = C9_maxBitRate [of ?a ?p ?w]
  have r1: "Advanced_maxBitRate ?a = Some 1000000" "Pro_maxBitRate ?p = Some 2000000"
    using t1 h by simp_all
  have r2: "Advanced_maxBitRate (Advanced_netListener ?c ?a) = Some 1000000"
    using t1 c by simp
  have r3: "Pro_maxBitRate (Pro_netListener ?w ?p) = None"
    using t2 w by simp
  show ?thesis
    by (intro conjI) (use h c w r1 r2 r3 in simp_all)
qed

text \<open>
  The claim as the specification states it fails: while a stream plays over wifi, with
  nothing loading, the report of a cellular connection changes the \<open>maxBitRate\<close> given
  to the engine from undefined to the ceiling at once; the source, the loading flag and
  the playing flag are as they were.
\<close>

theorem C9_counterexample:
  "isPlaying (a_playerState Advanced_playing_on_wifi)
   \<and> \<not> a_isLoading Advanced_playing_on_wifi
   \<and> Advanced_maxBitRate Advanced_playing_on_wifi = None
   \<and> Advanced_maxBitRate (Advanced_netListener \<lparr>isConnected = True, net_type = ''cellular''\<rparr>
        Advanced_playing_on_wifi) = Some 1000000
   \<and> a_isLoading (Advanced_netListener \<lparr>isConnected = True, net_type = ''cellular''\<rparr>
        Advanced_playing_on_wifi) = a_isLoading Advanced_playing_on_wifi
   \<and> a_playerState (Advanced_netListener \<lparr>isConnected = True, net_type = ''cellular''\<rparr>
        Advanced_playing_on_wifi) = a_playerState Advanced_playing_on_wifi"
  by (simp add: Advanced_playing_on_wifi_def Advanced_maxBitRate_def Advanced_netListener_def
      Advanced_init_def PlayerState_init_def)

section \<open>The debounced seek of ProVideoPlayer\<close>

lemma advance_no_timers:
  assumes "pending w = []"
  shows "advance fire d w = w\<lparr>now := now w + d\<rparr>"
  by (rule advance_idle) (simp add: assms)

text \<open>
  \<open>armed c w\<close>: the only pending timer is the debounced seek to \<open>c\<close>, set just now,
  and \<open>seekTimeoutRef\<close> refers to it.
\<close>

lemma Pro_seekTo_armed:
  assumes "pending w = [] \<or> (\<exists>i due c. pending w = [(i, due, SeekCommit c)] \<and> p_seekTimeoutRef w = Some i)"
  shows "pending (Pro_seekTo t w) = [(nextId w, now w + 150, SeekCommit (max 0 (min t (p_duration w))))]
         \<and> p_seekTimeoutRef (Pro_seekTo t w) = Some (nextId w)"
  using assms
  by (auto simp: Pro_seekTo_def Let_def clearRef_def clearTimeout_def setTimeout_def
      split: option.splits)

lemma Pro_seekTo_keeps:
  "p_engine (Pro_seekTo t w) = p_engine w" "p_duration (Pro_seekTo t w) = p_duration w"
  "p_videoRef (Pro_seekTo t w) = p_videoRef w" "now (Pro_seekTo t w) = now w"
  by (simp_all add: Pro_seekTo_def Let_def clearRef_def clearTimeout_def setTimeout_def
      split: option.splits)

text \<open>One request, made on an idle state or less than 150 ms after the request before.\<close>

lemma Pro_request:
  assumes "pending s = [] \<or>
           (\<exists>i c. pending s = [(i, now s + 150, SeekCommit c)] \<and> p_seekTimeoutRef s = Some i \<and> g < 150)"
  shows "pending (Pro_seekTo t (advance Pro_callback g s)) =
           [(nextId s, now (Pro_seekTo t (advance Pro_callback g s)) + 150,
             SeekCommit (max 0 (min t (p_duration s))))]"
    and "p_seekTimeoutRef (Pro_seekTo t (advance Pro_callback g s)) = Some (nextId s)"
    and "p_engine (Pro_seekTo t (advance Pro_callback g s)) = p_engine s"
    and "p_duration (Pro_seekTo t (advance Pro_callback g s)) = p_duration s"
    and "p_videoRef (Pro_seekTo t (advance Pro_callback g s)) = p_videoRef s"
proof -
  have idle: "advance Pro_callback g s = s\<lparr>now := now s + g\<rparr>"
    by (rule advance_idle) (use assms in auto)
  have "pending (s\<lparr>now := now s + g\<rparr>) = [] \<or>
        (\<exists>i due c. pending (s\<lparr>now := now s + g\<rparr>) = [(i, due, SeekCommit c)]
            \<and> p_seekTimeoutRef (s\<lparr>now := now s + g\<rparr>) = Some i)"
    using assms by auto
  from Pro_seekTo_armed [OF this, of t]
  show "pending (Pro_seekTo t (advance Pro_callback g s)) =
           [(nextId s, now (Pro_seekTo t (advance Pro_callback g s)) + 150,
             SeekCommit (max 0 (min t (p_duration s))))]"
    and "p_seekTimeoutRef (Pro_seekTo t (advance Pro_callback g s)) = Some (nextId s)"
    by (simp_all add: idle Pro_seekTo_keeps)
  show "p_engine (Pro_seekTo t (advance Pro_callback g s)) = p_engine s"
    and "p_duration (Pro_seekTo t (advance Pro_callback g s)) = p_duration s"
    and "p_videoRef (Pro_seekTo t (advance Pro_callback g s)) = p_videoRef s"
    by (simp_all add: idle Pro_seekTo_keeps)
qed

lemma seek_burst_snoc:
  "seek_burst (rs @ [r]) w = Pro_seekTo (snd r) (advance Pro_callback (fst r) (seek_burst rs w))"
  by (induction rs arbitrary: w) simp_all

text \<open>After a burst, the only pending timer is the seek to the last requested time.\<close>

lemma seek_burst_armed:
  assumes "pending w = []" and "rs \<noteq> []" and "\<forall>r \<in> set (tl rs). fst r < 150"
  shows "(\<exists>j. pending (seek_burst rs w) =
              [(j, now (seek_burst rs w) + 150,
                SeekCommit (max 0 (min (snd (last rs)) (p_duration w))))]
            \<and> p_seekTimeoutRef (seek_burst rs w) = Some j)
         \<and> p_engine (seek_burst rs w) = p_engine w
         \<and> p_duration (seek_burst rs w) = p_duration w
         \<and> p_videoRef (seek_burst rs w) = p_videoRef w"
  using assms(2,3)
proof (induction rs rule: rev_induct)
  case Nil
  then show ?case by simp
next
  case (snoc r rs)
  let ?s = "seek_burst rs w"
  have ih: "rs \<noteq> [] \<Longrightarrow>
      (\<exists>j. pending ?s = [(j, now ?s + 150, SeekCommit (max 0 (min (snd (last rs)) (p_duration w))))]
            \<and> p_seekTimeoutRef ?s = Some j)
      \<and> p_engine ?s = p_engine w \<and> p_duration ?s = p_duration w \<and> p_videoRef ?s = p_videoRef w"
    and gap: "rs \<noteq> [] \<Longrightarrow> fst r < 150"
    using snoc.IH snoc.prems(2) by simp_all
  have pre: "pending ?s = [] \<or>
      (\<exists>i c. pending ?s = [(i, now ?s + 150, SeekCommit c)] \<and> p_seekTimeoutRef ?s = Some i
          \<and> fst r < 150)"
  proof (cases "rs = []")
    case True
    then show ?thesis by (simp add: assms(1))
  next
    case False
    with ih gap show ?thesis by blast
  qed
  have keep: "p_engine ?s = p_engine w \<and> p_duration ?s = p_duration w \<and> p_videoRef ?s = p_videoRef w"
  proof (cases "rs = []")
    case True
    then show ?thesis by simp
  next
    case False
    with ih show ?thesis by blast
  qed
  note req = Pro_request [OF pre, of "snd r"]
  show ?case
    unfolding seek_burst_snoc
    by (intro conjI exI [of _ "nextId ?s"]) (simp_all only: req keep last_snoc)
qed

lemma Pro_commit_alone:
  assumes "pending w = [(i, now w + 150, SeekCommit c)]" and "150 \<le> d"
  shows "advance Pro_callback d w =
           (Pro_callback (SeekCommit c) (w\<lparr>now := now w + 150, pending := []\<rparr>))
           \<lparr>now := now w + d\<rparr>"
proof -
  let ?f = "Pro_callback (SeekCommit c) (w\<lparr>now := now w + 150, pending := []\<rparr>)"
  have "advance Pro_callback d w = advance Pro_callback (now w + d - (now w + 150)) ?f"
    by (rule advance_single [OF assms(1)]) (use assms(2) in simp_all)
  also have "\<dots> = ?f\<lparr>now := now ?f + (now w + d - (now w + 150))\<rparr>"
    by (rule advance_no_timers) (simp add: Pro_callback_def)
  also have "\<dots> = ?f\<lparr>now := now w + d\<rparr>"
    using assms(2) by (simp add: Pro_callback_def)
  finally show ?thesis .
qed

text \<open>
  Claim C2, as the code has it.  In ProVideoPlayer, a burst of seek requests in which
  each request follows the one before within less than 150 ms (from a state with no
  timer pending) leads to exactly one seek on the engine, 150 ms after the last request,
  to the last requested time clamped to the duration; the requests before it are
  cancelled.  \<open>seekTo\<close> of AdvancedVideoPlayer has no such window: every request sends
  its own seek to the engine at once.
\<close>

theorem C2_debounced_seek:
  assumes "pending w = []" and "p_videoRef w" and "rs \<noteq> []"
    and "\<forall>r \<in> set (tl rs). fst r < 150" and "150 \<le> d" and "a_videoRef a"
  shows "p_engine (advance Pro_callback d (seek_burst rs w)) =
           p_engine w @ [Seek (max 0 (min (snd (last rs)) (p_duration w)))]
         \<and> pending (advance Pro_callback d (seek_burst rs w)) = []
         \<and> length (a_engine (Advanced_seekTo t a)) = Suc (length (a_engine a))"
proof -
  let ?s = "seek_burst rs w"
  let ?c = "max 0 (min (snd (last rs)) (p_duration w))"
  from seek_burst_armed [OF assms(1,3,4)]
  obtain j where j: "pending ?s = [(j, now ?s + 150, SeekCommit ?c)]"
    and e: "p_engine ?s = p_engine w" "p_videoRef ?s = p_videoRef w"
    by blast
  have "advance Pro_callback d ?s =
          (Pro_callback (SeekCommit ?c) (?s\<lparr>now := now ?s + 150, pending := []\<rparr>))\<lparr>now := now ?s + d\<rparr>"
    by (rule Pro_commit_alone [OF j assms(5)])
  then have "p_engine (advance Pro_callback d ?s) = p_engine w @ [Seek ?c]"
    and "pending (advance Pro_callback d ?s) = []"
    using assms(2) by (simp_all add: Pro_callback_def call_def e)
  moreover have "length (a_engine (Advanced_seekTo t a)) = Suc (length (a_engine a))"
    using assms(6) by (simp add: Advanced_seekTo_def call_def Let_def)
  ultimately show ?thesis by simp
qed

theorem C2_witness:
  "pending (Pro_onLoad 60 Pro_init) = [] \<and> p_videoRef (Pro_onLoad 60 Pro_init)
   \<and> [(0, 45), (40, 50), (40, 52)] \<noteq> ([] :: (nat \<times> number) list)
   \<and> (150 :: nat) \<le> 150 \<and> a_videoRef Advanced_init
   \<and> p_engine (advance Pro_callback 150
        (seek_burst [(0, 45), (40, 50), (40, 52)] (Pro_onLoad 60 Pro_init))) = [Seek 52]"
proof -
  let ?w = "Pro_onLoad 60 Pro_init"
  let ?rs = "[(0, 45), (40, 50), (40, 52)] :: (nat \<times> number) list"
  have h: "pending ?w = []" "p_videoRef ?w" "?rs \<noteq> []" "\<forall>r \<in> set (tl ?rs). fst r < 150"
    "(150 :: nat) \<le> 150" "a_videoRef Advanced_init"
    by (simp_all add: Pro_onLoad_def Pro_init_def Advanced_init_def)
  have v: "p_engine ?w = []" "p_duration ?w = 60"
    by (simp_all add: Pro_onLoad_def Pro_init_def)
  from C2_debounced_seek [OF h, of 0]
  have "p_engine (advance Pro_callback 150 (seek_burst ?rs ?w)) = [Seek 52]"
    by (simp add: v)
  with h(1,2,3,5,6) show ?thesis by simp
qed

text \<open>
  The claim as the specification states it fails for AdvancedVideoPlayer (whose slider
  calls \<open>seekTo\<close> on every change of its value): requests for 45 s, 50 s and 52 s that
  are 50 ms apart lead to three seeks on the engine.
\<close>

lemma Advanced_seekTo_keeps:
  "pending (Advanced_seekTo t w) = pending w" "a_videoRef (Advanced_seekTo t w) = a_videoRef w"
  "duration (a_playerState (Advanced_seekTo t w)) = duration (a_playerState w)"
  "a_engine (Advanced_seekTo t w) =
     call (a_videoRef w) (Seek (max 0 (min t (duration (a_playerState w))) / 1000)) (a_engine w)"
  by (simp_all add: Advanced_seekTo_def Let_def)

theorem C2_counterexample:
  "a_engine (advance (Advanced_fire Current) 1000
     (Advanced_seekTo 52000 (advance (Advanced_fire Current) 50
       (Advanced_seekTo 50000 (advance (Advanced_fire Current) 50
         (Advanced_seekTo 45000 (Advanced_onLoad Current 60 Advanced_init)))))))
   = [Seek 45, Seek 50, Seek 52]"
proof -
  let ?w0 = "Advanced_onLoad Current 60 Advanced_init"
  let ?w1 = "Advanced_seekTo 45000 ?w0"
  let ?w2 = "Advanced_seekTo 50000 (advance (Advanced_fire Current) 50 ?w1)"
  let ?w3 = "Advanced_seekTo 52000 (advance (Advanced_fire Current) 50 ?w2)"
  have w0: "pending ?w0 = []" "a_videoRef ?w0" "duration (a_playerState ?w0) = 60000" "a_engine ?w0 = []"
    by (simp_all add: Advanced_onLoad_def Advanced_init_def PlayerState_init_def)
  note k1 = Advanced_seekTo_keeps [of 45000 ?w0]
  have w1: "pending ?w1 = []" "a_videoRef ?w1" "duration (a_playerState ?w1) = 60000"
    "a_engine ?w1 = [Seek 45]"
    by (simp_all only: k1 w0 call_def) simp_all
  have i1: "advance (Advanced_fire Current) 50 ?w1 = ?w1\<lparr>now := now ?w1 + 50\<rparr>"
    by (rule advance_no_timers) (rule w1)
  let ?v1 = "?w1\<lparr>now := now ?w1 + 50\<rparr>"
  have v1: "pending ?v1 = []" "a_videoRef ?v1" "duration (a_playerState ?v1) = 60000"
    "a_engine ?v1 = [Seek 45]"
    using w1 by simp_all
  note k2 = Advanced_seekTo_keeps [of 50000 ?v1]
  have w2: "pending ?w2 = []" "a_videoRef ?w2" "duration (a_playerState ?w2) = 60000"
    "a_engine ?w2 = [Seek 45, Seek 50]"
    by (simp_all only: i1 k2 v1 call_def) simp_all
  have i2: "advance (Advanced_fire Current) 50 ?w2 = ?w2\<lparr>now := now ?w2 + 50\<rparr>"
    by (rule advance_no_timers) (rule w2)
  let ?v2 = "?w2\<lparr>now := now ?w2 + 50\<rparr>"
  have v2: "pending ?v2 = []" "a_videoRef ?v2" "duration (a_playerState ?v2) = 60000"
    "a_engine ?v2 = [Seek 45, Seek 50]"
    using w2 by simp_all
  note k3 = Advanced_seekTo_keeps [of 52000 ?v2]
  have w3: "pending ?w3 = []" "a_engine ?w3 = [Seek 45, Seek 50, Seek 52]"
    by (simp_all only: i2 k3 v2 call_def) simp_all
  have "advance (Advanced_fire Current) 1000 ?w3 = ?w3\<lparr>now := now ?w3 + 1000\<rparr>"
    by (rule advance_no_timers) (rule w3)
  then have "a_engine (advance (Advanced_fire Current) 1000 ?w3) = a_engine ?w3"
    by simp
  then show ?thesis by (simp only: w3)
qed

section \<open>The quality switch of ProVideoPlayer\<close>

lemma changeQuality_pending:
  "pending w = [] \<Longrightarrow>
   pending (changeQuality i w) =
     [(nextId w, now w + 500, QualitySeek (if p_isSeeking w then p_seekTime w else p_currentTime w))]"
  by (simp add: changeQuality_def setTimeout_def Let_def)

lemma changeQuality_keeps:
  "now (changeQuality i w) = now w" "p_engine (changeQuality i w) = p_engine w"
  "p_videoRef (changeQuality i w) = p_videoRef w" "p_isPlaying (changeQuality i w) = p_isPlaying w"
  "p_isLoading (changeQuality i w)" "p_selectedQualityIndex (changeQuality i w) = i"
  by (simp_all add: changeQuality_def setTimeout_def Let_def)

lemma changeQuality_before:
  assumes "pending w = []" and "g < 500"
  shows "advance Pro_callback g (changeQuality i w) = (changeQuality i w)\<lparr>now := now w + g\<rparr>"
proof -
  have "advance Pro_callback g (changeQuality i w)
        = (changeQuality i w)\<lparr>now := now (changeQuality i w) + g\<rparr>"
    by (rule advance_idle) (use assms in \<open>simp add: changeQuality_pending changeQuality_keeps\<close>)
  then show ?thesis by (simp add: changeQuality_keeps)
qed

lemma changeQuality_after:
  assumes "pending w = []" and "500 \<le> d"
  shows "advance Pro_callback d (changeQuality i w) =
           (Pro_callback (QualitySeek (if p_isSeeking w then p_seekTime w else p_currentTime w))
              ((changeQuality i w)\<lparr>now := now w + 500, pending := []\<rparr>))\<lparr>now := now w + d\<rparr>"
proof -
  let ?q = "changeQuality i w"
  let ?cb = "QualitySeek (if p_isSeeking w then p_seekTime w else p_currentTime w)"
  let ?f = "Pro_callback ?cb (?q\<lparr>now := now w + 500, pending := []\<rparr>)"
  have p: "pending ?q = [(nextId w, now w + 500, ?cb)]"
    by (rule changeQuality_pending [OF assms(1)])
  have "advance Pro_callback d ?q = advance Pro_callback (now ?q + d - (now w + 500)) ?f"
    by (rule advance_single [OF p]) (use assms(2) in \<open>simp_all add: changeQuality_keeps\<close>)
  also have "\<dots> = ?f\<lparr>now := now ?f + (now ?q + d - (now w + 500))\<rparr>"
    by (rule advance_no_timers) (simp add: Pro_callback_def)
  also have "\<dots> = ?f\<lparr>now := now w + d\<rparr>"
    using assms(2) by (simp add: Pro_callback_def changeQuality_keeps)
  finally show ?thesis .
qed

text \<open>
  Claim C8, as the code has it.  \<open>changeQuality\<close> captures the position before it
  switches (\<open>seekTime\<close> while scrubbing, \<open>currentTime\<close> otherwise), sets the new source
  index and the loading flag, and leaves \<open>isPlaying\<close> as it is.  From a state with no
  timer pending, nothing is asked of the engine during the next 500 ms; at 500 ms one
  seek to the captured position is sent, whether or not the new source has loaded by
  then (the loading flag is still set if it has not).  \<open>onLoad\<close> sends no seek.
\<close>

theorem C8_changeQuality:
  assumes "pending w = []" and "p_videoRef w" and "g < 500" and "500 \<le> d"
  shows "p_engine (advance Pro_callback g (changeQuality i w)) = p_engine w
         \<and> p_engine (advance Pro_callback d (changeQuality i w)) =
             p_engine w @ [Seek (if p_isSeeking w then p_seekTime w else p_currentTime w)]
         \<and> p_isLoading (advance Pro_callback d (changeQuality i w))
         \<and> p_isPlaying (advance Pro_callback d (changeQuality i w)) = p_isPlaying w
         \<and> p_selectedQualityIndex (advance Pro_callback d (changeQuality i w)) = i
         \<and> p_engine (Pro_onLoad dur w') = p_engine w'"
proof -
  have "p_engine (advance Pro_callback g (changeQuality i w)) = p_engine w"
    by (simp add: changeQuality_before [OF assms(1,3)] changeQuality_keeps)
  moreover have "p_engine (advance Pro_callback d (changeQuality i w)) =
             p_engine w @ [Seek (if p_isSeeking w then p_seekTime w else p_currentTime w)]"
    and "p_isLoading (advance Pro_callback d (changeQuality i w))"
    and "p_isPlaying (advance Pro_callback d (changeQuality i w)) = p_isPlaying w"
    and "p_selectedQualityIndex (advance Pro_callback d (changeQuality i w)) = i"
    using assms(2)
    by (simp_all add: changeQuality_after [OF assms(1,4)] Pro_callback_def call_def
        changeQuality_keeps)
  moreover have "p_engine (Pro_onLoad dur w') = p_engine w'"
    by (simp add: Pro_onLoad_def)
  ultimately show ?thesis by simp
qed

theorem C8_witness:
  "pending Pro_playing_at_120 = [] \<and> p_videoRef Pro_playing_at_120
   \<and> (499 :: nat) < 500 \<and> (500 :: nat) \<le> 500
   \<and> p_engine (advance Pro_callback 499 (changeQuality 1 Pro_playing_at_120)) = []
   \<and> p_engine (advance Pro_callback 500 (changeQuality 1 Pro_playing_at_120)) = [Seek 120]
   \<and> p_isPlaying (advance Pro_callback 500 (changeQuality 1 Pro_playing_at_120))"
proof -
  have h: "pending Pro_playing_at_120 = []" "p_videoRef Pro_playing_at_120"
    "(499 :: nat) < 500" "(500 :: nat) \<le> 500"
    by (simp_all add: Pro_playing_at_120_def Pro_init_def)
  have v: "p_engine Pro_playing_at_120 = []" "\<not> p_isSeeking Pro_playing_at_120"
    "p_currentTime Pro_playing_at_120 = 120" "p_isPlaying Pro_playing_at_120"
    by (simp_all add: Pro_playing_at_120_def Pro_init_def)
  from C8_changeQuality [OF h, of 1]
  have "p_engine (advance Pro_callback 499 (changeQuality 1 Pro_playing_at_120)) = []
   \<and> p_engine (advance Pro_callback 500 (changeQuality 1 Pro_playing_at_120)) = [Seek 120]
   \<and> p_isPlaying (advance Pro_callback 500 (changeQuality 1 Pro_playing_at_120))"
    by (simp add: v)
  with h show ?thesis by simp
qed

text \<open>
  The claim as the specification states it fails: when the new source needs 800 ms to
  load, the seek to the captured position is sent at 500 ms, while the source is still
  loading, and nothing is sent once it has loaded.
\<close>

theorem C8_counterexample:
  "p_engine (advance Pro_callback 500 (changeQuality 1 Pro_playing_at_120)) = [Seek 120]
   \<and> p_isLoading (advance Pro_callback 500 (changeQuality 1 Pro_playing_at_120))
   \<and> \<not> p_isLoading (Pro_onLoad 600 (advance Pro_callback 300
         (advance Pro_callback 500 (changeQuality 1 Pro_playing_at_120))))
   \<and> p_engine (advance Pro_callback 1000 (Pro_onLoad 600 (advance Pro_callback 300
         (advance Pro_callback 500 (changeQuality 1 Pro_playing_at_120))))) = [Seek 120]"
proof -
  let ?w0 = "Pro_playing_at_120"
  let ?w1 = "advance Pro_callback 500 (changeQuality 1 ?w0)"
  let ?w2 = "Pro_onLoad 600 (advance Pro_callback 300 ?w1)"
  have h: "pending ?w0 = []" "p_videoRef ?w0" "p_engine ?w0 = []" "\<not> p_isSeeking ?w0"
    "p_currentTime ?w0 = 120"
    by (simp_all add: Pro_playing_at_120_def Pro_init_def)
  have e1: "?w1 = (Pro_callback (QualitySeek (if p_isSeeking ?w0 then p_seekTime ?w0 else p_currentTime ?w0))
              ((changeQuality 1 ?w0)\<lparr>now := now ?w0 + 500, pending := []\<rparr>))\<lparr>now := now ?w0 + 500\<rparr>"
    by (rule changeQuality_after) (simp_all add: h)
  have w1: "p_engine ?w1 = [Seek 120]" "p_isLoading ?w1" "pending ?w1 = []"
    unfolding e1 by (simp_all add: Pro_callback_def call_def changeQuality_keeps h)
  have i1: "advance Pro_callback 300 ?w1 = ?w1\<lparr>now := now ?w1 + 300\<rparr>"
    by (rule advance_no_timers) (rule w1)
  have w2: "p_engine ?w2 = [Seek 120]" "\<not> p_isLoading ?w2" "pending ?w2 = []"
    unfolding i1 using w1 by (simp_all add: Pro_onLoad_def)
  have "advance Pro_callback 1000 ?w2 = ?w2\<lparr>now := now ?w2 + 1000\<rparr>"
    by (rule advance_no_timers) (rule w2)
  then have "p_engine (advance Pro_callback 1000 ?w2) = p_engine ?w2" by simp
  with w1 w2 show ?thesis by simp
qed

section \<open>The buffering timeout of EnhancedVideoPlayer\<close>

text \<open>A status update that reports buffering leaves exactly one timer pending.\<close>

lemma Enhanced_buffering_update:
  assumes "\<forall>t \<in> set (pending w). e_bufferingTimeout w = Some (fst t)"
    and "isLoaded st" and "st_isBuffering st"
  shows "pending (Enhanced_event (Enhanced_onPlaybackStatusUpdate st) w) =
           [(nextId w, now w + 10000, BufferingRecover (currentTime (e_playerState w)))]"
    and "now (Enhanced_event (Enhanced_onPlaybackStatusUpdate st) w) = now w"
    and "e_engine (Enhanced_event (Enhanced_onPlaybackStatusUpdate st) w) = e_engine w"
    and "e_videoRef (Enhanced_event (Enhanced_onPlaybackStatusUpdate st) w) = e_videoRef w"
    and "e_error (Enhanced_event (Enhanced_onPlaybackStatusUpdate st) w) = None"
    and "e_isBuffering (Enhanced_event (Enhanced_onPlaybackStatusUpdate st) w)"
    and "currentTime (e_playerState (Enhanced_event (Enhanced_onPlaybackStatusUpdate st) w))
           = positionMillis st"
proof -
  have f: "\<And>i. e_bufferingTimeout w = Some i \<Longrightarrow> filter (\<lambda>t. fst t \<noteq> i) (pending w) = []"
    using assms(1) by (auto simp: filter_empty_conv)
  have e: "e_bufferingTimeout w = None \<Longrightarrow> pending w = []"
    using assms(1) by (cases "pending w") auto
  show "pending (Enhanced_event (Enhanced_onPlaybackStatusUpdate st) w) =
           [(nextId w, now w + 10000, BufferingRecover (currentTime (e_playerState w)))]"
    using assms(2,3) f e
    by (cases "e_bufferingTimeout w")
       (auto simp: Enhanced_event_def Enhanced_effects_def Enhanced_onPlaybackStatusUpdate_def
          Let_def clearRef_def clearTimeout_def setTimeout_def)
  show "now (Enhanced_event (Enhanced_onPlaybackStatusUpdate st) w) = now w"
    and "e_engine (Enhanced_event (Enhanced_onPlaybackStatusUpdate st) w) = e_engine w"
    and "e_videoRef (Enhanced_event (Enhanced_onPlaybackStatusUpdate st) w) = e_videoRef w"
    and "e_error (Enhanced_event (Enhanced_onPlaybackStatusUpdate st) w) = None"
    and "e_isBuffering (Enhanced_event (Enhanced_onPlaybackStatusUpdate st) w)"
    and "currentTime (e_playerState (Enhanced_event (Enhanced_onPlaybackStatusUpdate st) w))
           = positionMillis st"
    using assms(2,3)
    by (simp_all add: js_or_def Enhanced_event_def Enhanced_effects_def Enhanced_onPlaybackStatusUpdate_def
        Let_def clearRef_def clearTimeout_def setTimeout_def split: option.splits)
qed

lemma Enhanced_fire_keeps:
  "pending (Enhanced_fire cb w) = pending w" "now (Enhanced_fire cb w) = now w"
  "e_videoRef (Enhanced_fire cb w) = e_videoRef w" "e_playerState (Enhanced_fire cb w) = e_playerState w"
  "e_error (Enhanced_fire cb w) = e_error w" "\<not> e_isBuffering (Enhanced_fire cb w)"
  "e_engine (Enhanced_fire (BufferingRecover c) w) =
     (if e_videoRef w \<and> 0 < c then e_engine w @ [SetPositionAsync c] else e_engine w)"
  by (cases cb; simp add: Enhanced_fire_def Enhanced_effects_def Enhanced_callback_def Let_def)+

text \<open>Ten seconds or more after such an update, with no other status in between.\<close>

lemma Enhanced_timeout_runs:
  assumes "\<forall>t \<in> set (pending w). e_bufferingTimeout w = Some (fst t)"
    and "isLoaded st" and "st_isBuffering st"
    and "0 < currentTime (e_playerState w)" and "e_videoRef w" and "10000 \<le> d"
  shows "e_engine (advance Enhanced_fire d (Enhanced_event (Enhanced_onPlaybackStatusUpdate st) w))
           = e_engine w @ [SetPositionAsync (currentTime (e_playerState w))]"
    and "\<not> e_isBuffering (advance Enhanced_fire d (Enhanced_event (Enhanced_onPlaybackStatusUpdate st) w))"
    and "pending (advance Enhanced_fire d (Enhanced_event (Enhanced_onPlaybackStatusUpdate st) w)) = []"
    and "e_error (advance Enhanced_fire d (Enhanced_event (Enhanced_onPlaybackStatusUpdate st) w)) = None"
    and "e_videoRef (advance Enhanced_fire d (Enhanced_event (Enhanced_onPlaybackStatusUpdate st) w))"
    and "currentTime (e_playerState (advance Enhanced_fire d (Enhanced_event (Enhanced_onPlaybackStatusUpdate st) w)))
           = positionMillis st"
proof -
  let ?u = "Enhanced_event (Enhanced_onPlaybackStatusUpdate st) w"
  let ?cb = "BufferingRecover (currentTime (e_playerState w))"
  let ?f = "Enhanced_fire ?cb (?u\<lparr>now := now w + 10000, pending := []\<rparr>)"
  note u = Enhanced_buffering_update [OF assms(1,2,3)]
  have "advance Enhanced_fire d ?u = advance Enhanced_fire (now ?u + d - (now w + 10000)) ?f"
    by (rule advance_single [OF u(1)]) (use assms(6) in \<open>simp_all add: u\<close>)
  also have "\<dots> = ?f\<lparr>now := now ?f + (now ?u + d - (now w + 10000))\<rparr>"
    by (rule advance_no_timers) (simp add: Enhanced_fire_keeps)
  finally have after: "advance Enhanced_fire d ?u = ?f\<lparr>now := now ?f + (now ?u + d - (now w + 10000))\<rparr>" .
  show "e_engine (advance Enhanced_fire d ?u) = e_engine w @ [SetPositionAsync (currentTime (e_playerState w))]"
    and "\<not> e_isBuffering (advance Enhanced_fire d ?u)"
    and "pending (advance Enhanced_fire d ?u) = []"
    and "e_error (advance Enhanced_fire d ?u) = None"
    and "e_videoRef (advance Enhanced_fire d ?u)"
    unfolding after using assms(4,5) by (simp_all add: Enhanced_fire_keeps u)
  show "currentTime (e_playerState (advance Enhanced_fire d ?u)) = positionMillis st"
    unfolding after using assms(2,3)
    by (simp add: Enhanced_fire_keeps u)
qed

text \<open>
  Claim C3, as the code has it.  When a loaded status that reports buffering arrives
  while the state holds a position \<open>P > 0\<close>, and no other status follows, nothing is
  asked of the engine for 10 s and the buffering flag stays set; at 10 s the timeout
  runs once: it clears the buffering flag and sends one seek to \<open>P\<close>.  No timer is left,
  and the error stays unset: there is no count of attempts and no stalled-playback
  error, and no timer callback of this component ever sets an error.  A later status
  that reports buffering sets the same timeout again.
\<close>

theorem C3_buffering_timeout:
  assumes "\<forall>t \<in> set (pending w). e_bufferingTimeout w = Some (fst t)"
    and "isLoaded st" and "st_isBuffering st"
    and "0 < currentTime (e_playerState w)" and "e_videoRef w"
    and "g < 10000" and "10000 \<le> d"
  shows "e_engine (advance Enhanced_fire g (Enhanced_event (Enhanced_onPlaybackStatusUpdate st) w))
           = e_engine w
         \<and> e_isBuffering (advance Enhanced_fire g (Enhanced_event (Enhanced_onPlaybackStatusUpdate st) w))
         \<and> e_engine (advance Enhanced_fire d (Enhanced_event (Enhanced_onPlaybackStatusUpdate st) w))
           = e_engine w @ [SetPositionAsync (currentTime (e_playerState w))]
         \<and> \<not> e_isBuffering (advance Enhanced_fire d (Enhanced_event (Enhanced_onPlaybackStatusUpdate st) w))
         \<and> pending (advance Enhanced_fire d (Enhanced_event (Enhanced_onPlaybackStatusUpdate st) w)) = []
         \<and> e_error (advance Enhanced_fire d (Enhanced_event (Enhanced_onPlaybackStatusUpdate st) w)) = None
         \<and> e_error (Enhanced_fire cb w') = e_error w'"
proof -
  let ?u = "Enhanced_event (Enhanced_onPlaybackStatusUpdate st) w"
  note u = Enhanced_buffering_update [OF assms(1,2,3)]
  have before: "advance Enhanced_fire g ?u = ?u\<lparr>now := now ?u + g\<rparr>"
    by (rule advance_idle) (use assms(6) in \<open>simp add: u\<close>)
  have "e_engine (advance Enhanced_fire g ?u) = e_engine w"
    and "e_isBuffering (advance Enhanced_fire g ?u)"
    unfolding before by (simp_all add: u)
  moreover note Enhanced_timeout_runs [OF assms(1,2,3,4,5,7)]
  moreover have "e_error (Enhanced_fire cb w') = e_error w'"
    by (rule Enhanced_fire_keeps)
  ultimately show ?thesis by simp
qed

theorem C3_witness:
  "pending Enhanced_playing_at_120 = []
   \<and> isLoaded buffering_at_120 \<and> st_isBuffering buffering_at_120
   \<and> 0 < currentTime (e_playerState Enhanced_playing_at_120) \<and> e_videoRef Enhanced_playing_at_120
   \<and> (9999 :: nat) < 10000 \<and> (10000 :: nat) \<le> 10000
   \<and> e_engine (advance Enhanced_fire 9999
        (Enhanced_event (Enhanced_onPlaybackStatusUpdate buffering_at_120) Enhanced_playing_at_120)) = []
   \<and> e_engine (advance Enhanced_fire 10000
        (Enhanced_event (Enhanced_onPlaybackStatusUpdate buffering_at_120) Enhanced_playing_at_120))
       = [SetPositionAsync 120000]"
proof -
  have h: "\<forall>t \<in> set (pending Enhanced_playing_at_120). e_bufferingTimeout Enhanced_playing_at_120 = Some (fst t)"
    "isLoaded buffering_at_120" "st_isBuffering buffering_at_120"
    "0 < currentTime (e_playerState Enhanced_playing_at_120)" "e_videoRef Enhanced_playing_at_120"
    "(9999 :: nat) < 10000" "(10000 :: nat) \<le> 10000"
    by (simp_all add: Enhanced_playing_at_120_def Enhanced_init_def buffering_at_120_def)
  have v: "e_engine Enhanced_playing_at_120 = []"
    "currentTime (e_playerState Enhanced_playing_at_120) = 120000"
    by (simp_all add: Enhanced_playing_at_120_def Enhanced_init_def)
  from C3_buffering_timeout [OF h]
  have "e_engine (advance Enhanced_fire 9999
        (Enhanced_event (Enhanced_onPlaybackStatusUpdate buffering_at_120) Enhanced_playing_at_120)) = []
   \<and> e_engine (advance Enhanced_fire 10000
        (Enhanced_event (Enhanced_onPlaybackStatusUpdate buffering_at_120) Enhanced_playing_at_120))
       = [SetPositionAsync 120000]"
    by (simp add: v)
  moreover have "pending Enhanced_playing_at_120 = []"
    by (simp add: Enhanced_playing_at_120_def Enhanced_init_def)
  ultimately show ?thesis using h(2-7) by simp
qed

text \<open>
  The claim as the specification states it fails in its second half: buffering at 120 s
  goes on, the timeout runs at 10 s and seeks to 120 s, the engine reports buffering
  again, and after 10 more seconds the error is still unset; the engine has been asked
  to seek a second time instead.
\<close>

theorem C3_counterexample:
  "e_error (advance Enhanced_fire 10000 (Enhanced_event (Enhanced_onPlaybackStatusUpdate buffering_at_120)
      (advance Enhanced_fire 10000 (Enhanced_event (Enhanced_onPlaybackStatusUpdate buffering_at_120)
         Enhanced_playing_at_120)))) = None
   \<and> e_engine (advance Enhanced_fire 10000 (Enhanced_event (Enhanced_onPlaybackStatusUpdate buffering_at_120)
      (advance Enhanced_fire 10000 (Enhanced_event (Enhanced_onPlaybackStatusUpdate buffering_at_120)
         Enhanced_playing_at_120)))) = [SetPositionAsync 120000, SetPositionAsync 120000]"
proof -
  let ?w0 = "Enhanced_playing_at_120"
  let ?w1 = "advance Enhanced_fire 10000 (Enhanced_event (Enhanced_onPlaybackStatusUpdate buffering_at_120) ?w0)"
  have h0: "\<forall>t \<in> set (pending ?w0). e_bufferingTimeout ?w0 = Some (fst t)"
    "isLoaded buffering_at_120" "st_isBuffering buffering_at_120"
    "0 < currentTime (e_playerState ?w0)" "e_videoRef ?w0" "(10000 :: nat) \<le> 10000"
    by (simp_all add: Enhanced_playing_at_120_def Enhanced_init_def buffering_at_120_def)
  have v0: "e_engine ?w0 = []" "currentTime (e_playerState ?w0) = 120000"
    "positionMillis buffering_at_120 = 120000"
    by (simp_all add: Enhanced_playing_at_120_def Enhanced_init_def buffering_at_120_def)
  note r1 = Enhanced_timeout_runs [OF h0]
  have h1: "\<forall>t \<in> set (pending ?w1). e_bufferingTimeout ?w1 = Some (fst t)"
    "0 < currentTime (e_playerState ?w1)" "e_videoRef ?w1"
    by (simp_all only: r1 v0) simp_all
  note r2 = Enhanced_timeout_runs [OF h1(1) h0(2,3) h1(2,3) h0(6)]
  show ?thesis
    by (simp only: r2 r1 v0) simp
qed

section \<open>ProVideoPlayer: one seek timer among delayed progress updates\<close>

text \<open>When the run of the due timers reaches the id \<open>n\<close>.\<close>

lemma run_due_reaches:
  assumes "n \<in> set ids" and "I w"
    and step: "\<And>u s. I s \<Longrightarrow> u \<in> set (pending s) \<Longrightarrow> fst (snd u) \<le> now s \<Longrightarrow> fst u \<noteq> n \<Longrightarrow>
            I (fire (snd (snd u)) (clearTimeout (fst u) s))"
    and hit: "\<And>u s. I s \<Longrightarrow> u \<in> set (pending s) \<Longrightarrow> fst (snd u) \<le> now s \<Longrightarrow> fst u = n \<Longrightarrow>
            J (fire (snd (snd u)) (clearTimeout n s))"
    and miss: "\<And>s. I s \<Longrightarrow> \<forall>u \<in> set (pending s). \<not> (fst u = n \<and> fst (snd u) \<le> now s) \<Longrightarrow> J s"
    and after: "\<And>u s. J s \<Longrightarrow> u \<in> set (pending s) \<Longrightarrow> fst (snd u) \<le> now s \<Longrightarrow>
            J (fire (snd (snd u)) (clearTimeout (fst u) s))"
  shows "J (run_due fire ids w)"
  using assms(1,2)
proof (induction ids arbitrary: w)
  case Nil
  then show ?case by simp
next
  case (Cons i ids)
  let ?w' = "case find (\<lambda>u. fst u = i \<and> fst (snd u) \<le> now w) (pending w) of
               None \<Rightarrow> w | Some u \<Rightarrow> fire (snd (snd u)) (clearTimeout i w)"
  have r: "run_due fire (i # ids) w = run_due fire ids ?w'" by simp
  show ?case
  proof (cases "i = n")
    case True
    have "J ?w'"
    proof (cases "find (\<lambda>u. fst u = i \<and> fst (snd u) \<le> now w) (pending w)")
      case None
      then have "\<forall>u \<in> set (pending w). \<not> (fst u = n \<and> fst (snd u) \<le> now w)"
        using True unfolding find_None_iff by blast
      with miss Cons.prems(2) None show ?thesis by simp
    next
      case (Some u)
      then have "u \<in> set (pending w)" "fst u = n" "fst (snd u) \<le> now w"
        using True by (auto simp: find_Some_iff)
      with hit Cons.prems(2) Some True show ?thesis by simp
    qed
    then have "J (run_due fire ids ?w')"
      by (rule run_due_inv) (rule after)
    then show ?thesis by (simp only: r)
  next
    case False
    then have n: "n \<in> set ids" using Cons.prems(1) by simp
    have "I ?w'"
    proof (cases "find (\<lambda>u. fst u = i \<and> fst (snd u) \<le> now w) (pending w)")
      case None
      with Cons.prems(2) show ?thesis by simp
    next
      case (Some u)
      then have "u \<in> set (pending w)" "fst u = i" "fst (snd u) \<le> now w"
        by (auto simp: find_Some_iff)
      with step [of w u] Cons.prems(2) False Some show ?thesis by simp
    qed
    with n have "J (run_due fire ids ?w')" by (rule Cons.IH)
    then show ?thesis by (simp only: r)
  qed
qed

lemma Pro_callback_progress:
  assumes "is_progress cb"
  shows "p_engine (Pro_callback cb s) = p_engine s" "pending (Pro_callback cb s) = pending s"
    "now (Pro_callback cb s) = now s" "Pro_fixed (Pro_callback cb s) = Pro_fixed s"
    "p_isSeeking (Pro_callback cb s) = p_isSeeking s" "p_seekTime (Pro_callback cb s) = p_seekTime s"
    "p_seekTimeoutRef (Pro_callback cb s) = p_seekTimeoutRef s"
  using assms by (cases cb; simp add: Pro_callback_def Pro_fixed_def)+

lemma Pro_callback_seek:
  assumes "\<not> is_progress cb"
  shows "p_engine (Pro_callback cb s) = call (p_videoRef s) (Seek (seek_target cb)) (p_engine s)"
    "pending (Pro_callback cb s) = pending s" "now (Pro_callback cb s) = now s"
    "Pro_fixed (Pro_callback cb s) = Pro_fixed s"
    "p_isSeeking (Pro_callback cb s) = (p_isSeeking s \<and> \<not> is_commit cb)"
  using assms by (cases cb; simp add: Pro_callback_def Pro_fixed_def)+

lemma clearTimeout_pro [simp]:
  "p_engine (clearTimeout i s) = p_engine s" "Pro_fixed (clearTimeout i s) = Pro_fixed s"
  "p_isSeeking (clearTimeout i s) = p_isSeeking s" "p_seekTime (clearTimeout i s) = p_seekTime s"
  "p_seekTimeoutRef (clearTimeout i s) = p_seekTimeoutRef s" "p_videoRef (clearTimeout i s) = p_videoRef s"
  "now (clearTimeout i s) = now s"
  "set (pending (clearTimeout i s)) = {t \<in> set (pending s). fst t \<noteq> i}"
  by (auto simp: clearTimeout_def Pro_fixed_def)

lemma Pro_fixedD:
  assumes "Pro_fixed a = Pro_fixed b"
  shows "p_videoRef a = p_videoRef b" "p_isLoading a = p_isLoading b"
    "p_isPlaying a = p_isPlaying b" "p_selectedQualityIndex a = p_selectedQualityIndex b"
    "p_duration a = p_duration b" "nextId a = nextId b"
  using assms by (simp_all add: Pro_fixed_def)

lemma Pro_fixed_now [simp]: "Pro_fixed (s\<lparr>now := t\<rparr>) = Pro_fixed s"
  by (simp add: Pro_fixed_def)

text \<open>
  While only delayed progress updates are pending, time passes without a call on the
  engine.
\<close>

lemma Pro_rest:
  assumes "\<forall>t \<in> set (pending s). is_progress (snd (snd t))"
  shows "p_engine (advance Pro_callback d s) = p_engine s"
    and "\<forall>t \<in> set (pending (advance Pro_callback d s)). is_progress (snd (snd t))"
    and "set (pending (advance Pro_callback d s)) \<subseteq> set (pending s)"
    and "Pro_fixed (advance Pro_callback d s) = Pro_fixed s"
    and "p_seekTimeoutRef (advance Pro_callback d s) = p_seekTimeoutRef s"
    and "p_isSeeking (advance Pro_callback d s) = p_isSeeking s"
    and "p_seekTime (advance Pro_callback d s) = p_seekTime s"
    and "now (advance Pro_callback d s) = now s + d"
proof -
  let ?I = "\<lambda>x. p_engine x = p_engine s \<and> set (pending x) \<subseteq> set (pending s)
      \<and> Pro_fixed x = Pro_fixed s \<and> p_seekTimeoutRef x = p_seekTimeoutRef s
      \<and> p_isSeeking x = p_isSeeking s \<and> p_seekTime x = p_seekTime s"
  have "?I (advance Pro_callback d s) \<and> now (advance Pro_callback d s) = now s + d"
  proof (rule advance_inv [where T = "now s + d"])
    show "?I s" by simp
    show "now s + d \<le> now s + d" by simp
  next
    fix x :: pro assume "?I x"
    then show "?I (x\<lparr>now := Suc (now x)\<rparr>)" by simp
  next
    fix u and x :: pro
    assume x: "?I x" and u: "u \<in> set (pending x)"
    then have "u \<in> set (pending s)" by blast
    then have cb: "is_progress (snd (snd u))" using assms by simp
    note k = Pro_callback_progress [OF cb, where s = "clearTimeout (fst u) x"]
    have "set (pending (Pro_callback (snd (snd u)) (clearTimeout (fst u) x))) \<subseteq> set (pending s)"
      unfolding k using x by auto
    with x show "?I (Pro_callback (snd (snd u)) (clearTimeout (fst u) x))
        \<and> now (Pro_callback (snd (snd u)) (clearTimeout (fst u) x)) = now x"
      by (simp add: k)
  qed
  then show "p_engine (advance Pro_callback d s) = p_engine s"
    and "set (pending (advance Pro_callback d s)) \<subseteq> set (pending s)"
    and "Pro_fixed (advance Pro_callback d s) = Pro_fixed s"
    and "p_seekTimeoutRef (advance Pro_callback d s) = p_seekTimeoutRef s"
    and "p_isSeeking (advance Pro_callback d s) = p_isSeeking s"
    and "p_seekTime (advance Pro_callback d s) = p_seekTime s"
    and "now (advance Pro_callback d s) = now s + d"
    by simp_all
  then show "\<forall>t \<in> set (pending (advance Pro_callback d s)). is_progress (snd (snd t))"
    using assms by blast
qed

text \<open>
  One seek timer \<open>q\<close> among delayed progress updates: until it is due nothing is asked
  of the engine and the timer stays.
\<close>

lemma Pro_wait:
  assumes "q \<in> set (pending s)"
    and "\<forall>t \<in> set (pending s). fst t = fst q \<longrightarrow> t = q"
    and "\<forall>t \<in> set (pending s). t = q \<or> is_progress (snd (snd t))"
    and "now s + g < fst (snd q)"
  shows "p_engine (advance Pro_callback g s) = p_engine s"
    and "q \<in> set (pending (advance Pro_callback g s))"
    and "set (pending (advance Pro_callback g s)) \<subseteq> set (pending s)"
    and "Pro_fixed (advance Pro_callback g s) = Pro_fixed s"
    and "p_seekTimeoutRef (advance Pro_callback g s) = p_seekTimeoutRef s"
    and "p_isSeeking (advance Pro_callback g s) = p_isSeeking s"
    and "p_seekTime (advance Pro_callback g s) = p_seekTime s"
    and "now (advance Pro_callback g s) = now s + g"
proof -
  let ?I = "\<lambda>x. p_engine x = p_engine s \<and> q \<in> set (pending x) \<and> set (pending x) \<subseteq> set (pending s)
      \<and> Pro_fixed x = Pro_fixed s \<and> p_seekTimeoutRef x = p_seekTimeoutRef s
      \<and> p_isSeeking x = p_isSeeking s \<and> p_seekTime x = p_seekTime s"
  have "?I (advance Pro_callback g s) \<and> now (advance Pro_callback g s) = now s + g"
  proof (rule advance_inv [where T = "now s + g"])
    show "?I s" using assms(1) by simp
    show "now s + g \<le> now s + g" by simp
  next
    fix x :: pro assume "?I x"
    then show "?I (x\<lparr>now := Suc (now x)\<rparr>)" by simp
  next
    fix u and x :: pro
    assume x: "?I x" and n: "now x \<le> now s + g" and u: "u \<in> set (pending x)"
      and due: "fst (snd u) \<le> now x"
    from x u have us: "u \<in> set (pending s)" by blast
    have "u \<noteq> q" using due n assms(4) by auto
    then have cb: "is_progress (snd (snd u))" and id: "fst u \<noteq> fst q"
      using assms(2,3) us by blast+
    note k = Pro_callback_progress [OF cb, where s = "clearTimeout (fst u) x"]
    have "q \<in> set (pending (Pro_callback (snd (snd u)) (clearTimeout (fst u) x)))"
      unfolding k using x id by simp
    moreover have "set (pending (Pro_callback (snd (snd u)) (clearTimeout (fst u) x))) \<subseteq> set (pending s)"
      unfolding k using x by auto
    ultimately show "?I (Pro_callback (snd (snd u)) (clearTimeout (fst u) x))
        \<and> now (Pro_callback (snd (snd u)) (clearTimeout (fst u) x)) = now x"
      using x by (simp add: k)
  qed
  then show "p_engine (advance Pro_callback g s) = p_engine s"
    and "q \<in> set (pending (advance Pro_callback g s))"
    and "set (pending (advance Pro_callback g s)) \<subseteq> set (pending s)"
    and "Pro_fixed (advance Pro_callback g s) = Pro_fixed s"
    and "p_seekTimeoutRef (advance Pro_callback g s) = p_seekTimeoutRef s"
    and "p_isSeeking (advance Pro_callback g s) = p_isSeeking s"
    and "p_seekTime (advance Pro_callback g s) = p_seekTime s"
    and "now (advance Pro_callback g s) = now s + g"
    by simp_all
qed

text \<open>In the millisecond in which the seek timer is due, its seek is sent, once.\<close>

lemma Pro_fires:
  assumes q: "q \<in> set (pending s)"
    and uq: "\<forall>t \<in> set (pending s). fst t = fst q \<longrightarrow> t = q"
    and pr: "\<forall>t \<in> set (pending s). t = q \<or> is_progress (snd (snd t))"
    and cb: "\<not> is_progress (snd (snd q))"
    and due: "fst (snd q) = Suc (now s)"
    and v: "p_videoRef s"
  shows "p_engine (tick Pro_callback s) = p_engine s @ [Seek (seek_target (snd (snd q)))]"
    and "\<forall>t \<in> set (pending (tick Pro_callback s)). is_progress (snd (snd t))"
    and "set (pending (tick Pro_callback s)) \<subseteq> set (pending s)"
    and "Pro_fixed (tick Pro_callback s) = Pro_fixed s"
    and "now (tick Pro_callback s) = Suc (now s)"
    and "p_isSeeking (tick Pro_callback s) =
           (p_isSeeking s \<and> \<not> is_commit (snd (snd q)))"
proof -
  let ?s' = "s\<lparr>now := Suc (now s)\<rparr>"
  let ?ids = "map fst (filter (\<lambda>t. fst (snd t) \<le> now ?s') (pending ?s'))"
  let ?I = "\<lambda>x. p_engine x = p_engine s \<and> q \<in> set (pending x) \<and> set (pending x) \<subseteq> set (pending s)
      \<and> Pro_fixed x = Pro_fixed s \<and> now x = Suc (now s) \<and> p_isSeeking x = p_isSeeking s"
  let ?J = "\<lambda>x. p_engine x = p_engine s @ [Seek (seek_target (snd (snd q)))]
      \<and> set (pending x) \<subseteq> set (pending s) - {q}
      \<and> Pro_fixed x = Pro_fixed s \<and> now x = Suc (now s)
      \<and> p_isSeeking x = (p_isSeeking s \<and> \<not> is_commit (snd (snd q)))"
  have t: "tick Pro_callback s = run_due Pro_callback ?ids ?s'"
    by (simp add: tick_def Let_def)
  have "?J (run_due Pro_callback ?ids ?s')"
  proof (rule run_due_reaches [where n = "fst q" and I = ?I])
    show "fst q \<in> set ?ids" using q due by force
    show "?I ?s'" using q by simp
  next
    fix u and x :: pro
    assume x: "?I x" and u: "u \<in> set (pending x)" and id: "fst u \<noteq> fst q"
    from x u have "u \<in> set (pending s)" by blast
    with pr id have p: "is_progress (snd (snd u))" by auto
    note k = Pro_callback_progress [OF p, where s = "clearTimeout (fst u) x"]
    have "q \<in> set (pending (Pro_callback (snd (snd u)) (clearTimeout (fst u) x)))"
      unfolding k using x id by simp
    moreover have "set (pending (Pro_callback (snd (snd u)) (clearTimeout (fst u) x))) \<subseteq> set (pending s)"
      unfolding k using x by auto
    ultimately show "?I (Pro_callback (snd (snd u)) (clearTimeout (fst u) x))"
      using x by (simp add: k)
  next
    fix u and x :: pro
    assume x: "?I x" and u: "u \<in> set (pending x)" and id: "fst u = fst q"
    from x u have "u \<in> set (pending s)" by blast
    with uq id have e: "u = q" by blast
    note k = Pro_callback_seek [OF cb, where s = "clearTimeout (fst q) x"]
    have vx: "p_videoRef x" using x v by (simp add: Pro_fixed_def)
    have "set (pending (Pro_callback (snd (snd q)) (clearTimeout (fst q) x))) \<subseteq> set (pending s) - {q}"
      unfolding k using x by auto
    then show "?J (Pro_callback (snd (snd u)) (clearTimeout (fst q) x))"
      unfolding e using x vx by (simp add: k call_def)
  next
    fix x :: pro
    assume x: "?I x" and "\<forall>u \<in> set (pending x). \<not> (fst u = fst q \<and> fst (snd u) \<le> now x)"
    with due have False by auto
    then show "?J x" ..
  next
    fix u and x :: pro
    assume x: "?J x" and u: "u \<in> set (pending x)"
    from x u have "u \<in> set (pending s)" "u \<noteq> q" by blast+
    with pr have p: "is_progress (snd (snd u))" by blast
    note k = Pro_callback_progress [OF p, where s = "clearTimeout (fst u) x"]
    have "set (pending (Pro_callback (snd (snd u)) (clearTimeout (fst u) x))) \<subseteq> set (pending s) - {q}"
      unfolding k using x by auto
    with x show "?J (Pro_callback (snd (snd u)) (clearTimeout (fst u) x))"
      by (simp add: k)
  qed
  then have j: "?J (tick Pro_callback s)" by (simp only: t)
  then show "p_engine (tick Pro_callback s) = p_engine s @ [Seek (seek_target (snd (snd q)))]"
    and "set (pending (tick Pro_callback s)) \<subseteq> set (pending s)"
    and "Pro_fixed (tick Pro_callback s) = Pro_fixed s"
    and "now (tick Pro_callback s) = Suc (now s)"
    and "p_isSeeking (tick Pro_callback s) =
           (p_isSeeking s \<and> \<not> is_commit (snd (snd q)))"
    by auto
  from j pr show "\<forall>t \<in> set (pending (tick Pro_callback s)). is_progress (snd (snd t))"
    by blast
qed

text \<open>
  Together: a seek timer among delayed progress updates sends exactly its seek, when it
  is due, and nothing else is asked of the engine before or after.
\<close>

lemma Pro_seek_timer_runs:
  assumes q: "q \<in> set (pending s)"
    and uq: "\<forall>t \<in> set (pending s). fst t = fst q \<longrightarrow> t = q"
    and pr: "\<forall>t \<in> set (pending s). t = q \<or> is_progress (snd (snd t))"
    and cb: "\<not> is_progress (snd (snd q))"
    and v: "p_videoRef s"
    and lo: "now s < fst (snd q)" and hi: "fst (snd q) \<le> now s + d"
  shows "p_engine (advance Pro_callback d s) = p_engine s @ [Seek (seek_target (snd (snd q)))]"
    and "\<forall>t \<in> set (pending (advance Pro_callback d s)). is_progress (snd (snd t))"
    and "set (pending (advance Pro_callback d s)) \<subseteq> set (pending s)"
    and "Pro_fixed (advance Pro_callback d s) = Pro_fixed s"
    and "p_isSeeking (advance Pro_callback d s) =
           (p_isSeeking s \<and> \<not> is_commit (snd (snd q)))"
proof -
  from lo obtain a where a: "fst (snd q) = Suc (now s + a)"
    by (auto simp: less_iff_Suc_add)
  with hi obtain b where d: "d = a + Suc b"
    by (metis Suc_le_eq add_Suc_right less_iff_Suc_add nat_add_left_cancel_less)
  let ?s1 = "advance Pro_callback a s"
  let ?s2 = "tick Pro_callback ?s1"
  have split: "advance Pro_callback d s = advance Pro_callback b ?s2"
    unfolding d advance_add by simp
  have "now s + a < fst (snd q)" using a by simp
  note w = Pro_wait [OF q uq pr this]
  have uq1: "\<forall>t \<in> set (pending ?s1). fst t = fst q \<longrightarrow> t = q" using uq w(3) by blast
  have pr1: "\<forall>t \<in> set (pending ?s1). t = q \<or> is_progress (snd (snd t))" using pr w(3) by blast
  have due1: "fst (snd q) = Suc (now ?s1)" using a w(8) by simp
  have v1: "p_videoRef ?s1" using w(4) v by (simp add: Pro_fixed_def)
  note f = Pro_fires [OF w(2) uq1 pr1 cb due1 v1]
  note r = Pro_rest [OF f(2), of b]
  show "p_engine (advance Pro_callback d s) = p_engine s @ [Seek (seek_target (snd (snd q)))]"
    by (simp only: split r(1) f(1) w(1))
  show "\<forall>t \<in> set (pending (advance Pro_callback d s)). is_progress (snd (snd t))"
    unfolding split by (rule r(2))
  show "set (pending (advance Pro_callback d s)) \<subseteq> set (pending s)"
    unfolding split using r(3) f(3) w(3) by blast
  show "Pro_fixed (advance Pro_callback d s) = Pro_fixed s"
    by (simp only: split r(4) f(4) w(4))
  show "p_isSeeking (advance Pro_callback d s) =
           (p_isSeeking s \<and> \<not> is_commit (snd (snd q)))"
    by (simp only: split r(6) f(6) w(6))
qed

section \<open>Progress events while scrubbing\<close>

lemma Pro_onProgress_seeking: "p_isSeeking s \<Longrightarrow> Pro_onProgress t s = s"
  by (simp add: Pro_onProgress_def)

lemma handleSliderChange_keeps:
  "p_isSeeking (handleSliderChange val s) = p_isSeeking s"
  "p_seekTime (handleSliderChange val s) = val"
  "p_engine (handleSliderChange val s) = p_engine s"
  "pending (handleSliderChange val s) = pending s"
  "now (handleSliderChange val s) = now s"
  "Pro_fixed (handleSliderChange val s) = Pro_fixed s"
  "p_seekTimeoutRef (handleSliderChange val s) = p_seekTimeoutRef s"
  by (simp_all add: handleSliderChange_def Pro_fixed_def)

lemma handleSliderStart_keeps:
  "p_isSeeking (handleSliderStart s)"
  "p_seekTime (handleSliderStart s) = p_seekTime s"
  "p_engine (handleSliderStart s) = p_engine s"
  "pending (handleSliderStart s) = pending s"
  "now (handleSliderStart s) = now s"
  "Pro_fixed (handleSliderStart s) = Pro_fixed s"
  "p_seekTimeoutRef (handleSliderStart s) = p_seekTimeoutRef s"
  by (simp_all add: handleSliderStart_def showControlsAnimated_def Pro_fixed_def)

text \<open>While the slider is held and only delayed progress updates are pending.\<close>

lemma scrub_dragging:
  assumes "p_isSeeking s" and "\<forall>u \<in> set (pending s). is_progress (snd (snd u))"
  shows "p_isSeeking (scrub es s) \<and> p_seekTime (scrub es s) = shown es (p_seekTime s)
         \<and> p_engine (scrub es s) = p_engine s
         \<and> set (pending (scrub es s)) \<subseteq> set (pending s)
         \<and> Pro_fixed (scrub es s) = Pro_fixed s
         \<and> p_seekTimeoutRef (scrub es s) = p_seekTimeoutRef s"
  using assms
proof (induction es s rule: scrub.induct)
  case (1 w)
  then show ?case by simp
next
  case (2 g es w)
  let ?w' = "advance Pro_callback g w"
  note r = Pro_rest [OF "2.prems"(2), of g]
  have s: "p_isSeeking ?w'" using r(6) "2.prems"(1) by simp
  note ih = "2.IH" [OF s r(2)]
  from ih have "set (pending (scrub es ?w')) \<subseteq> set (pending w)" using r(3) by blast
  with ih show ?case by (simp add: r)
next
  case (3 val es w)
  let ?w' = "handleSliderChange val w"
  have s: "p_isSeeking ?w'" and p: "\<forall>u \<in> set (pending ?w'). is_progress (snd (snd u))"
    using "3.prems" by (simp_all add: handleSliderChange_keeps)
  from "3.IH" [OF s p] show ?case by (simp add: handleSliderChange_keeps)
next
  case (4 t es w)
  have e: "Pro_onProgress t w = w" by (rule Pro_onProgress_seeking [OF "4.prems"(1)])
  from "4.IH" [unfolded e, OF "4.prems"] show ?case by (simp add: e)
qed

text \<open>
  Between the release of the slider and the debounced seek \<open>q\<close>, which is not due
  during the events.
\<close>

lemma scrub_in_flight:
  assumes "p_isSeeking s" and "q \<in> set (pending s)"
    and "\<forall>u \<in> set (pending s). fst u = fst q \<longrightarrow> u = q"
    and "\<forall>u \<in> set (pending s). u = q \<or> is_progress (snd (snd u))"
    and "now s + waits es < fst (snd q)"
  shows "p_isSeeking (scrub es s) \<and> p_seekTime (scrub es s) = shown es (p_seekTime s)
         \<and> p_engine (scrub es s) = p_engine s
         \<and> q \<in> set (pending (scrub es s))
         \<and> set (pending (scrub es s)) \<subseteq> set (pending s)
         \<and> Pro_fixed (scrub es s) = Pro_fixed s
         \<and> now (scrub es s) = now s + waits es"
  using assms
proof (induction es s rule: scrub.induct)
  case (1 w)
  then show ?case by simp
next
  case (2 g es w)
  let ?w' = "advance Pro_callback g w"
  have lo: "now w + g < fst (snd q)" using "2.prems"(5) by simp
  note r = Pro_wait [OF "2.prems"(2,3,4) lo]
  have s: "p_isSeeking ?w'" using r(6) "2.prems"(1) by simp
  have uq: "\<forall>u \<in> set (pending ?w'). fst u = fst q \<longrightarrow> u = q"
    using "2.prems"(3) r(3) by blast
  have pr: "\<forall>u \<in> set (pending ?w'). u = q \<or> is_progress (snd (snd u))"
    using "2.prems"(4) r(3) by blast
  have lo': "now ?w' + waits es < fst (snd q)" using "2.prems"(5) r(8) by simp
  note ih = "2.IH" [OF s r(2) uq pr lo']
  from ih have "set (pending (scrub es ?w')) \<subseteq> set (pending w)" using r(3) by blast
  with ih show ?case by (simp add: r)
next
  case (3 val es w)
  let ?w' = "handleSliderChange val w"
  have s: "p_isSeeking ?w'" "q \<in> set (pending ?w')"
    "\<forall>u \<in> set (pending ?w'). fst u = fst q \<longrightarrow> u = q"
    "\<forall>u \<in> set (pending ?w'). u = q \<or> is_progress (snd (snd u))"
    "now ?w' + waits es < fst (snd q)"
    using "3.prems" by (simp_all add: handleSliderChange_keeps)
  from "3.IH" [OF s] show ?case by (simp add: handleSliderChange_keeps)
next
  case (4 t es w)
  have e: "Pro_onProgress t w = w" by (rule Pro_onProgress_seeking [OF "4.prems"(1)])
  have lo: "now w + waits es < fst (snd q)" using "4.prems"(5) by simp
  from "4.IH" [unfolded e, OF "4.prems"(1,2,3,4) lo] show ?case by (simp add: e)
qed

text \<open>The release of the slider arms the debounced seek and leaves the flag set.\<close>

lemma Pro_seekTo_release:
  "p_isSeeking (Pro_seekTo t s) = p_isSeeking s"
  "p_seekTime (Pro_seekTo t s) = max 0 (min t (p_duration s))"
  "p_engine (Pro_seekTo t s) = p_engine s" "now (Pro_seekTo t s) = now s"
  "p_videoRef (Pro_seekTo t s) = p_videoRef s"
  "nextId (Pro_seekTo t s) = Suc (nextId s)"
  "pending (Pro_seekTo t s) =
     (case p_seekTimeoutRef s of None \<Rightarrow> pending s
      | Some i \<Rightarrow> filter (\<lambda>u. fst u \<noteq> i) (pending s))
     @ [(nextId s, now s + 150, SeekCommit (max 0 (min t (p_duration s))))]"
  by (simp_all add: Pro_seekTo_def Let_def clearRef_def clearTimeout_def setTimeout_def
      split: option.splits)

text \<open>
  Claim C4, as the code has it.  In ProVideoPlayer, when the slider is grabbed while
  the only pending timers are delayed progress updates (no debounced seek of an earlier
  request is pending), the flag \<open>isSeeking\<close> is set from the grab on, through every
  sequence of slider values, progress events and elapsed time, through the release, and
  until the debounced seek runs 150 ms after the release.  During all that time a
  progress event changes nothing at all (no time is stored, no timer is set, the host
  is not called), the progress updates that were scheduled before the grab run without
  moving the position that is shown, which is the last value the slider has reported
  (before the first such value: \<open>seekTime\<close> as the grab found it; after the release:
  the released value clamped to the duration), and nothing is asked of the engine.  The
  debounced seek then asks the engine for the clamped released value, once, and clears
  the flag.  AdvancedVideoPlayer has no such flag: every progress event writes
  \<open>currentTime\<close>.
\<close>

theorem C4_progress_while_seeking:
  assumes "\<forall>u \<in> set (pending w). is_progress (snd (snd u))"
    and "\<forall>u \<in> set (pending w). fst u < nextId w"
    and "p_videoRef w"
    and "waits es2 < 150" and "150 \<le> waits es2 + d"
  shows "(let s1 = scrub es1 (handleSliderStart w);
              c = max 0 (min val (p_duration w));
              s2 = scrub es2 (handleSliderComplete val s1)
          in p_isSeeking s1 \<and> Pro_onProgress t s1 = s1
             \<and> Pro_displayed s1 = shown es1 (p_seekTime w) \<and> p_engine s1 = p_engine w
             \<and> p_isSeeking s2 \<and> Pro_onProgress t s2 = s2
             \<and> Pro_displayed s2 = shown es2 c \<and> p_engine s2 = p_engine w
             \<and> p_engine (advance Pro_callback d s2) = p_engine w @ [Seek c]
             \<and> \<not> p_isSeeking (advance Pro_callback d s2))
         \<and> currentTime (a_playerState (Advanced_onProgress t a)) = t * 1000"
proof -
  let ?s0 = "handleSliderStart w"
  let ?s1 = "scrub es1 ?s0"
  let ?c = "max 0 (min val (p_duration w))"
  let ?r = "Pro_seekTo val ?s1"
  let ?s2 = "scrub es2 ?r"
  let ?q = "(nextId w, now ?s1 + 150, SeekCommit ?c)"
  have p0: "\<forall>u \<in> set (pending ?s0). is_progress (snd (snd u))"
    using assms(1) by (simp add: handleSliderStart_keeps)
  from scrub_dragging [OF handleSliderStart_keeps(1) p0, of es1]
  have s1: "p_isSeeking ?s1" "p_seekTime ?s1 = shown es1 (p_seekTime w)"
    "p_engine ?s1 = p_engine w" "set (pending ?s1) \<subseteq> set (pending w)"
    "Pro_fixed ?s1 = Pro_fixed w"
    by (simp_all add: handleSliderStart_keeps)
  note f1 = Pro_fixedD [OF s1(5)]
  let ?old = "case p_seekTimeoutRef ?s1 of None \<Rightarrow> pending ?s1
      | Some i \<Rightarrow> filter (\<lambda>u. fst u \<noteq> i) (pending ?s1)"
  have pr: "pending ?r = ?old @ [?q]"
    by (simp only: Pro_seekTo_release(7) f1)
  have old: "set ?old \<subseteq> set (pending w)"
    using s1(4) by (auto split: option.splits)
  have r: "p_isSeeking ?r" "p_seekTime ?r = ?c" "p_engine ?r = p_engine w" "now ?r = now ?s1"
    "p_videoRef ?r"
    using s1(1,3) assms(3) by (simp_all add: Pro_seekTo_release f1)
  have q: "?q \<in> set (pending ?r)" unfolding pr by simp
  have uq: "\<forall>u \<in> set (pending ?r). fst u = fst ?q \<longrightarrow> u = ?q"
    unfolding pr using old assms(2) by fastforce
  have pg: "\<forall>u \<in> set (pending ?r). u = ?q \<or> is_progress (snd (snd u))"
    unfolding pr using old assms(1) by auto
  have lo: "now ?r + waits es2 < fst (snd ?q)"
    using assms(4) by (simp add: r(4))
  from scrub_in_flight [OF r(1) q uq pg lo]
  have s2: "p_isSeeking ?s2" "p_seekTime ?s2 = shown es2 ?c" "p_engine ?s2 = p_engine w"
    "?q \<in> set (pending ?s2)" "set (pending ?s2) \<subseteq> set (pending ?r)"
    "Pro_fixed ?s2 = Pro_fixed ?r" "now ?s2 = now ?s1 + waits es2"
    by (simp_all add: r)
  have uq2: "\<forall>u \<in> set (pending ?s2). fst u = fst ?q \<longrightarrow> u = ?q"
    using uq s2(5) by blast
  have pg2: "\<forall>u \<in> set (pending ?s2). u = ?q \<or> is_progress (snd (snd u))"
    using pg s2(5) by blast
  have cb: "\<not> is_progress (snd (snd ?q))" by simp
  have v2: "p_videoRef ?s2" using Pro_fixedD(1) [OF s2(6)] r(5) by simp
  have lo2: "now ?s2 < fst (snd ?q)" and hi2: "fst (snd ?q) \<le> now ?s2 + d"
    using assms(4,5) by (simp_all add: s2(7))
  note a = Pro_seek_timer_runs [OF s2(4) uq2 pg2 cb v2 lo2 hi2]
  have e: "p_engine (advance Pro_callback d ?s2) = p_engine w @ [Seek ?c]"
    using a(1) by (simp add: s2(3))
  have n: "\<not> p_isSeeking (advance Pro_callback d ?s2)"
    using a(5) by simp
  have d1: "Pro_displayed ?s1 = shown es1 (p_seekTime w)"
    and d2: "Pro_displayed ?s2 = shown es2 ?c"
    by (simp_all add: Pro_displayed_def s1 s2)
  have i1: "Pro_onProgress t ?s1 = ?s1" by (rule Pro_onProgress_seeking [OF s1(1)])
  have i2: "Pro_onProgress t ?s2 = ?s2" by (rule Pro_onProgress_seeking [OF s2(1)])
  have adv: "currentTime (a_playerState (Advanced_onProgress t a)) = t * 1000"
    by (simp add: Advanced_onProgress_def)
  show ?thesis
    unfolding Let_def handleSliderComplete_def
    using s1(1) i1 d1 s1(3) s2(1) i2 d2 s2(3) e n adv by (intro conjI)
qed

text \<open>
  An instance: the engine has just reported 121 s, so that its delayed progress update
  is pending at the grab; the slider is moved to 300 s and, 60 ms and one progress
  event later, to 400 s, where it is released; 100 ms and another progress event after
  the release the flag is still set and 400 s is shown; 50 ms later the debounced seek
  has asked the engine for 400 s.
\<close>

theorem C4_witness:
  "pending (Pro_onProgress 121 Pro_playing_at_120) \<noteq> []
   \<and> p_videoRef (Pro_onProgress 121 Pro_playing_at_120)
   \<and> waits [Wait 100, Report 123] < 150 \<and> 150 \<le> waits [Wait 100, Report 123] + 50
   \<and> p_isSeeking (scrub [Move 300, Wait 60, Report 122, Move 400]
         (handleSliderStart (Pro_onProgress 121 Pro_playing_at_120)))
   \<and> Pro_displayed (scrub [Move 300, Wait 60, Report 122, Move 400]
         (handleSliderStart (Pro_onProgress 121 Pro_playing_at_120))) = 400
   \<and> Pro_displayed (scrub [Wait 100, Report 123] (handleSliderComplete 400
         (scrub [Move 300, Wait 60, Report 122, Move 400]
            (handleSliderStart (Pro_onProgress 121 Pro_playing_at_120))))) = 400
   \<and> p_engine (advance Pro_callback 50 (scrub [Wait 100, Report 123] (handleSliderComplete 400
         (scrub [Move 300, Wait 60, Report 122, Move 400]
            (handleSliderStart (Pro_onProgress 121 Pro_playing_at_120)))))) = [Seek 400]"
proof -
  let ?w = "Pro_onProgress 121 Pro_playing_at_120"
  let ?es1 = "[Move 300, Wait 60, Report 122, Move 400]"
  let ?es2 = "[Wait 100, Report 123]"
  have p: "pending ?w = [(1, 100, ProgressApply 121 600)]" "nextId ?w = 2"
    and v: "p_engine ?w = []" "p_duration ?w = 600" "p_videoRef ?w"
    by (simp_all add: Pro_onProgress_def Pro_playing_at_120_def Pro_init_def Let_def
        clearRef_def setTimeout_def)
  have h: "\<forall>u \<in> set (pending ?w). is_progress (snd (snd u))"
    "\<forall>u \<in> set (pending ?w). fst u < nextId ?w" "p_videoRef ?w"
    "waits ?es2 < 150" "150 \<le> waits ?es2 + 50"
    by (simp_all add: p v)
  from C4_progress_while_seeking [OF h, where ?es1.0 = ?es1 and val = 400]
  have "p_isSeeking (scrub ?es1 (handleSliderStart ?w))
   \<and> Pro_displayed (scrub ?es1 (handleSliderStart ?w)) = 400
   \<and> Pro_displayed (scrub ?es2 (handleSliderComplete 400 (scrub ?es1 (handleSliderStart ?w)))) = 400
   \<and> p_engine (advance Pro_callback 50
        (scrub ?es2 (handleSliderComplete 400 (scrub ?es1 (handleSliderStart ?w))))) = [Seek 400]"
    unfolding Let_def by (simp add: v)
  with h(3,4,5) p(1) show ?thesis by simp
qed

text \<open>
  The claim as the specification states it fails for AdvancedVideoPlayer: the slider is
  grabbed and moved to 50 s, which \<open>seekTo\<close> stores as the position, and a progress
  event of the engine that reports 10 s then overwrites it, while the scrub is still in
  flight.
\<close>

theorem C4_counterexample:
  "currentTime (a_playerState (Advanced_seekTo 50000
      (Advanced_onSlidingStart Current (Advanced_onLoad Current 60 Advanced_init)))) = 50000
   \<and> currentTime (a_playerState (Advanced_onProgress 10 (Advanced_seekTo 50000
      (Advanced_onSlidingStart Current (Advanced_onLoad Current 60 Advanced_init))))) = 10000"
  by (simp add: Advanced_onProgress_def Advanced_seekTo_def Advanced_onSlidingStart_def
      Advanced_onLoad_def Advanced_init_def PlayerState_init_def clearRef_def Let_def)

text \<open>
  Why the grab must find no debounced seek pending.  \<open>handleSliderStart\<close> does not clear
  \<open>seekTimeoutRef\<close>: when the slider is released at 300 s and grabbed again 100 ms
  later, the debounced seek of the release runs 50 ms into the second drag and clears
  the flag, so that the position shown falls from the 400 s of the slider back to
  300 s, and the next progress event (301 s) moves it.
\<close>

lemma Pro_grab_during_debounce:
  "Pro_displayed (handleSliderChange 400 (handleSliderStart (advance Pro_callback 100
      (handleSliderComplete 300 (handleSliderChange 300 (handleSliderStart Pro_playing_at_120))))))
     = 400
   \<and> \<not> p_isSeeking (advance Pro_callback 50 (handleSliderChange 400 (handleSliderStart
      (advance Pro_callback 100
        (handleSliderComplete 300 (handleSliderChange 300 (handleSliderStart Pro_playing_at_120)))))))
   \<and> Pro_displayed (advance Pro_callback 50 (handleSliderChange 400 (handleSliderStart
      (advance Pro_callback 100
        (handleSliderComplete 300 (handleSliderChange 300 (handleSliderStart Pro_playing_at_120)))))))
     = 300
   \<and> Pro_displayed (advance Pro_callback 100 (Pro_onProgress 301
      (advance Pro_callback 50 (handleSliderChange 400 (handleSliderStart
        (advance Pro_callback 100
          (handleSliderComplete 300 (handleSliderChange 300 (handleSliderStart Pro_playing_at_120)))))))))
     = 301"
proof -
  let ?r1 = "handleSliderComplete 300 (handleSliderChange 300 (handleSliderStart Pro_playing_at_120))"
  let ?m2 = "handleSliderChange 400 (handleSliderStart (advance Pro_callback 100 ?r1))"
  let ?a2 = "advance Pro_callback 50 ?m2"
  let ?p3 = "Pro_onProgress 301 ?a2"
  have r1: "pending ?r1 = [(1, 150, SeekCommit 300)]" "now ?r1 = 0"
    by (simp_all add: handleSliderComplete_def handleSliderChange_def handleSliderStart_def
        showControlsAnimated_def Pro_seekTo_def Let_def clearRef_def setTimeout_def
        Pro_playing_at_120_def Pro_init_def)
  have i1: "advance Pro_callback 100 ?r1 = ?r1\<lparr>now := now ?r1 + 100\<rparr>"
    by (rule advance_idle) (simp add: r1)
  have m2: "pending ?m2 = [(1, 150, SeekCommit 300)]" "now ?m2 = 100" "p_isSeeking ?m2"
    "p_seekTime ?m2 = 400" "p_duration ?m2 = 600" "p_onProgressCallback ?m2"
    "p_progressUpdateTimeoutRef ?m2 = None" "nextId ?m2 = 2"
    unfolding i1
    by (simp_all add: r1 handleSliderChange_def handleSliderStart_def showControlsAnimated_def)
       (simp_all add: handleSliderComplete_def handleSliderChange_def handleSliderStart_def
        showControlsAnimated_def Pro_seekTo_def Let_def clearRef_def setTimeout_def
        Pro_playing_at_120_def Pro_init_def)
  have "advance Pro_callback 50 ?m2 =
        advance Pro_callback (now ?m2 + 50 - 150)
          (Pro_callback (SeekCommit 300) (?m2\<lparr>now := 150, pending := []\<rparr>))"
    by (rule advance_single [OF m2(1)]) (simp_all add: m2)
  then have a2: "?a2 = Pro_callback (SeekCommit 300) (?m2\<lparr>now := 150, pending := []\<rparr>)"
    by (simp add: m2)
  have k2: "\<not> p_isSeeking ?a2" "p_currentTime ?a2 = 300" "pending ?a2 = []" "now ?a2 = 150"
    "p_duration ?a2 = 600" "p_progressUpdateTimeoutRef ?a2 = None" "nextId ?a2 = 2"
    unfolding a2 by (simp_all add: Pro_callback_def m2)
  have p3: "pending ?p3 = [(2, 250, ProgressApply 301 600)]" "now ?p3 = 150"
    "\<not> p_isSeeking ?p3"
    by (simp_all add: Pro_onProgress_def Let_def clearRef_def setTimeout_def k2)
  have "advance Pro_callback 100 ?p3 =
        advance Pro_callback (now ?p3 + 100 - 250)
          (Pro_callback (ProgressApply 301 600) (?p3\<lparr>now := 250, pending := []\<rparr>))"
    by (rule advance_single [OF p3(1)]) (simp_all add: p3)
  then have a3: "advance Pro_callback 100 ?p3 =
      Pro_callback (ProgressApply 301 600) (?p3\<lparr>now := 250, pending := []\<rparr>)"
    by (simp add: p3)
  have "Pro_displayed ?m2 = 400" by (simp add: Pro_displayed_def m2)
  moreover have "Pro_displayed ?a2 = 300" by (simp add: Pro_displayed_def k2)
  moreover have "Pro_displayed (advance Pro_callback 100 ?p3) = 301"
    unfolding a3 by (simp add: Pro_displayed_def Pro_callback_def p3)
  ultimately show ?thesis using k2(1) by (intro conjI)
qed
section \<open>Facts about AdvancedVideoPlayer\<close>

text \<open>
  What the effects leave alone, and what they add: timers of their own kind, with
  fresh ids.
\<close>

lemma clearRef_fields [simp]:
  "now (clearRef r w) = now w" "nextId (clearRef r w) = nextId w"
  "set (pending (clearRef r w)) \<subseteq> set (pending w)"
  by (auto simp: clearRef_def clearTimeout_def split: option.splits)

lemma clearRef_pendingD: "t \<in> set (pending (clearRef r w)) \<Longrightarrow> t \<in> set (pending w)"
  using clearRef_fields(3) by blast

lemma clearRef_advanced [simp]:
  "a_playerState (clearRef r w) = a_playerState w" "a_showControls (clearRef r w) = a_showControls w"
  "a_showSpeedMenu (clearRef r w) = a_showSpeedMenu w"
  "a_showQualityMenu (clearRef r w) = a_showQualityMenu w"
  "a_lastTap (clearRef r w) = a_lastTap w" "a_toggles (clearRef r w) = a_toggles w"
  "a_doubleTapTimeoutRef (clearRef r w) = a_doubleTapTimeoutRef w"
  "a_controlsTimeoutRef (clearRef r w) = a_controlsTimeoutRef w"
  "a_controlsVisibilityTimeoutRef (clearRef r w) = a_controlsVisibilityTimeoutRef w"
  "a_engine (clearRef r w) = a_engine w" "a_videoRef (clearRef r w) = a_videoRef w"
  by (simp_all add: clearRef_def clearTimeout_def split: option.splits)

lemma fallback_effect_keeps:
  "now (fallback_effect old w) = now w" "a_toggles (fallback_effect old w) = a_toggles w"
  "a_lastTap (fallback_effect old w) = a_lastTap w"
  "a_doubleTapTimeoutRef (fallback_effect old w) = a_doubleTapTimeoutRef w"
  "a_showControls (fallback_effect old w) = a_showControls w"
  "a_showSpeedMenu (fallback_effect old w) = a_showSpeedMenu w"
  "a_showQualityMenu (fallback_effect old w) = a_showQualityMenu w"
  "a_controlsTimeoutRef (fallback_effect old w) = a_controlsTimeoutRef w"
  "a_engine (fallback_effect old w) = a_engine w"
  "nextId w \<le> nextId (fallback_effect old w)"
  by (simp_all add: fallback_effect_def setTimeout_def Let_def)

lemma fallback_effect_pending:
  assumes "t \<in> set (pending (fallback_effect old w))"
  shows "t \<in> set (pending w) \<or> (\<not> is_tap (snd (snd t)) \<and> nextId w \<le> fst t)"
  using assms
  by (auto simp: fallback_effect_def setTimeout_def Let_def split: if_splits dest: clearRef_pendingD)

lemma autohide_effect_keeps:
  "now (autohide_effect v old w) = now w" "a_toggles (autohide_effect v old w) = a_toggles w"
  "a_lastTap (autohide_effect v old w) = a_lastTap w"
  "a_doubleTapTimeoutRef (autohide_effect v old w) = a_doubleTapTimeoutRef w"
  "a_showControls (autohide_effect v old w) = a_showControls w"
  "a_engine (autohide_effect v old w) = a_engine w"
  "nextId w \<le> nextId (autohide_effect v old w)"
  by (cases v; simp add: autohide_effect_def setTimeout_def Let_def)+

lemma autohide_effect_pending:
  assumes "t \<in> set (pending (autohide_effect v old w))"
  shows "t \<in> set (pending w) \<or> (\<not> is_tap (snd (snd t)) \<and> nextId w \<le> fst t)"
  using assms
  by (cases v)
     (auto simp: autohide_effect_def setTimeout_def Let_def split: if_splits dest: clearRef_pendingD)

lemma Advanced_effects_keeps:
  "now (Advanced_effects v old w) = now w" "a_toggles (Advanced_effects v old w) = a_toggles w"
  "a_lastTap (Advanced_effects v old w) = a_lastTap w"
  "a_doubleTapTimeoutRef (Advanced_effects v old w) = a_doubleTapTimeoutRef w"
  "a_showControls (Advanced_effects v old w) = a_showControls w"
  "a_playerState (Advanced_effects v old w) = a_playerState w"
  "a_engine (Advanced_effects v old w) = a_engine w"
  "nextId w \<le> nextId (Advanced_effects v old w)"
  by (cases v; simp add: Advanced_effects_def Advanced_progress_effect_def Let_def
      fallback_effect_keeps autohide_effect_keeps;
      (rule order_trans [OF fallback_effect_keeps(10) autohide_effect_keeps(7)])?)+

lemma Advanced_effects_pending:
  assumes "t \<in> set (pending (Advanced_effects v old w))"
  shows "t \<in> set (pending w) \<or> (\<not> is_tap (snd (snd t)) \<and> nextId w \<le> fst t)"
proof (cases v)
  case Current
  with assms have "t \<in> set (pending (autohide_effect Current old (fallback_effect old w)))"
    by (simp add: Advanced_effects_def Advanced_progress_effect_def Let_def)
  then have "t \<in> set (pending (fallback_effect old w))
      \<or> (\<not> is_tap (snd (snd t)) \<and> nextId (fallback_effect old w) \<le> fst t)"
    by (rule autohide_effect_pending)
  then show ?thesis
    using fallback_effect_pending [of t old w] fallback_effect_keeps(10) [of w old]
    by auto
next
  case Legacy
  with assms have "t \<in> set (pending (autohide_effect Legacy old w))"
    by (simp add: Advanced_effects_def Advanced_progress_effect_def Let_def)
  then show ?thesis by (rule autohide_effect_pending)
qed

section \<open>Taps and double taps\<close>

lemma Advanced_callback_keeps:
  assumes "\<not> is_tap cb"
  shows "now (Advanced_callback cb w) = now w" "nextId (Advanced_callback cb w) = nextId w"
    "pending (Advanced_callback cb w) = pending w" "a_toggles (Advanced_callback cb w) = a_toggles w"
    "a_lastTap (Advanced_callback cb w) = a_lastTap w"
    "a_doubleTapTimeoutRef (Advanced_callback cb w) = a_doubleTapTimeoutRef w"
  using assms by (cases cb; simp add: Advanced_callback_def)+

lemma clearTimeout_fields [simp]:
  "now (clearTimeout i w) = now w" "nextId (clearTimeout i w) = nextId w"
  "set (pending (clearTimeout i w)) = {t \<in> set (pending w). fst t \<noteq> i}"
  by (auto simp: clearTimeout_def)

lemma clearTimeout_advanced [simp]:
  "a_toggles (clearTimeout i w) = a_toggles w" "a_lastTap (clearTimeout i w) = a_lastTap w"
  "a_doubleTapTimeoutRef (clearTimeout i w) = a_doubleTapTimeoutRef w"
  "a_showControls (clearTimeout i w) = a_showControls w"
  "a_playerState (clearTimeout i w) = a_playerState w"
  by (simp_all add: clearTimeout_def)

text \<open>A timer of the effects runs: the tap bookkeeping is untouched.\<close>

lemma Advanced_fire_other:
  assumes "\<not> is_tap cb"
  shows "now (Advanced_fire v cb (clearTimeout j w)) = now w"
    and "a_toggles (Advanced_fire v cb (clearTimeout j w)) = a_toggles w"
    and "a_lastTap (Advanced_fire v cb (clearTimeout j w)) = a_lastTap w"
    and "a_doubleTapTimeoutRef (Advanced_fire v cb (clearTimeout j w)) = a_doubleTapTimeoutRef w"
    and "nextId w \<le> nextId (Advanced_fire v cb (clearTimeout j w))"
    and "t \<in> set (pending (Advanced_fire v cb (clearTimeout j w))) \<Longrightarrow>
         t \<in> set (pending w) \<or> (\<not> is_tap (snd (snd t)) \<and> nextId w \<le> fst t)"
proof -
  let ?c = "Advanced_callback cb (clearTimeout j w)"
  note k = Advanced_callback_keeps [OF assms, where w = "clearTimeout j w"]
  show "now (Advanced_fire v cb (clearTimeout j w)) = now w"
    and "a_toggles (Advanced_fire v cb (clearTimeout j w)) = a_toggles w"
    and "a_lastTap (Advanced_fire v cb (clearTimeout j w)) = a_lastTap w"
    and "a_doubleTapTimeoutRef (Advanced_fire v cb (clearTimeout j w)) = a_doubleTapTimeoutRef w"
    by (simp_all add: Advanced_fire_def Advanced_effects_keeps k)
  show "nextId w \<le> nextId (Advanced_fire v cb (clearTimeout j w))"
    using Advanced_effects_keeps(8) [of ?c v "clearTimeout j w"] by (simp add: Advanced_fire_def k)
  assume "t \<in> set (pending (Advanced_fire v cb (clearTimeout j w)))"
  then have "t \<in> set (pending ?c) \<or> (\<not> is_tap (snd (snd t)) \<and> nextId ?c \<le> fst t)"
    unfolding Advanced_fire_def by (rule Advanced_effects_pending)
  then show "t \<in> set (pending w) \<or> (\<not> is_tap (snd (snd t)) \<and> nextId w \<le> fst t)"
    by (auto simp: k)
qed


text \<open>Once no single-tap timer is pending, none ever runs.\<close>

lemma no_tap_pending:
  assumes "\<forall>t \<in> set (pending w). \<not> is_tap (snd (snd t))"
  shows "a_toggles (advance (Advanced_fire v) d w) = a_toggles w"
proof -
  let ?I = "\<lambda>s. a_toggles s = a_toggles w \<and> (\<forall>t \<in> set (pending s). \<not> is_tap (snd (snd t)))"
  have "?I (advance (Advanced_fire v) d w) \<and> now (advance (Advanced_fire v) d w) = now w + d"
  proof (rule advance_inv [where T = "now w + d"])
    show "?I w" using assms by simp
    show "now w + d \<le> now w + d" by simp
  next
    fix s :: advanced assume "?I s"
    then show "?I (s\<lparr>now := Suc (now s)\<rparr>)" by simp
  next
    fix u and s :: advanced
    assume s: "?I s" and u: "u \<in> set (pending s)"
    have nu: "\<not> is_tap (snd (snd u))" using s u by simp
    note f = Advanced_fire_other [OF nu, where v = v and j = "fst u" and w = s]
    have "\<forall>t \<in> set (pending (Advanced_fire v (snd (snd u)) (clearTimeout (fst u) s))).
            \<not> is_tap (snd (snd t))"
      using f(6) s by blast
    then show "?I (Advanced_fire v (snd (snd u)) (clearTimeout (fst u) s))
        \<and> now (Advanced_fire v (snd (snd u)) (clearTimeout (fst u) s)) = now s"
      using s by (simp add: f(1,2))
  qed
  then show ?thesis by simp
qed














text \<open>The first press on the paused player with the controls shown.\<close>

lemma first_press_paused:
  "Advanced_event Current (Advanced_onPress Current 300 x) Advanced_paused
   = Advanced_paused\<lparr>nextId := 2, pending := [(1, 1250, ToggleControls)],
        a_doubleTapTimeoutRef := Some 1, a_lastTap := 1000\<rparr>"
  by (simp add: Advanced_event_def Advanced_onPress_def Advanced_handleTap_def
      Advanced_effects_def fallback_effect_def autohide_effect_def Advanced_progress_effect_def
      progress_effect_def clearRef_def setTimeout_def Let_def DOUBLE_PRESS_DELAY_def
      Advanced_paused_def Advanced_init_def PlayerState_init_def)



text \<open>
  For comparison, a lone press: 250 ms later the callback of its timer has run once and
  has hidden the controls.
\<close>

lemma lone_tap_toggles:
  "a_toggles (advance (Advanced_fire Current) 250
      (Advanced_event Current (Advanced_onPress Current 300 150) Advanced_paused)) = 1
   \<and> \<not> a_showControls (advance (Advanced_fire Current) 250
      (Advanced_event Current (Advanced_onPress Current 300 150) Advanced_paused))"
proof -
  let ?w1 = "Advanced_event Current (Advanced_onPress Current 300 150) Advanced_paused"
  have p: "pending ?w1 = [(1, 1250, ToggleControls)]" and n: "now ?w1 = 1000"
    and k: "a_toggles ?w1 = 0" "a_showControls ?w1"
    by (simp_all add: first_press_paused) (simp_all add: Advanced_paused_def Advanced_init_def)
  have "advance (Advanced_fire Current) 250 ?w1 =
        advance (Advanced_fire Current) (now ?w1 + 250 - 1250)
          (Advanced_fire Current ToggleControls (?w1\<lparr>now := 1250, pending := []\<rparr>))"
    by (rule advance_single [OF p]) (simp_all add: n)
  then have e: "advance (Advanced_fire Current) 250 ?w1 =
      Advanced_fire Current ToggleControls (?w1\<lparr>now := 1250, pending := []\<rparr>)"
    by (simp add: n)
  show ?thesis
    unfolding e
    by (simp add: Advanced_fire_def Advanced_effects_keeps Advanced_callback_def k)
qed

section \<open>The controls come back while paused\<close>

lemma Advanced_effects_same: "Advanced_effects v s s = s"
  by (cases v)
     (simp_all add: Advanced_effects_def fallback_effect_def autohide_effect_def
        Advanced_progress_effect_def progress_effect_def Let_def)

text \<open>
  The effects after an event that has left the controls hidden and playback paused, when
  every pending timer is one that \<open>controlsTimeoutRef\<close> or
  \<open>controlsVisibilityTimeoutRef\<close> holds: the only timer left is the fallback.
\<close>

lemma enter_hidden_paused:
  assumes "\<forall>t \<in> set (pending w). a_controlsTimeoutRef w = Some (fst t)
             \<or> a_controlsVisibilityTimeoutRef w = Some (fst t)"
    and "\<forall>j. a_controlsTimeoutRef w = Some j \<longrightarrow> j < nextId w"
    and "\<not> a_showControls w" and "\<not> isPlaying (a_playerState w)"
    and "a_showControls old \<or> isPlaying (a_playerState old)"
  shows "pending (Advanced_effects Current old w) = [(nextId w, now w + 1000, ForceShow)]"
    and "now (Advanced_effects Current old w) = now w"
    and "\<not> a_showControls (Advanced_effects Current old w)"
    and "\<not> isPlaying (a_playerState (Advanced_effects Current old w))"
proof -
  have ch: "\<not> (a_showControls w = a_showControls old
      \<and> isPlaying (a_playerState w) = isPlaying (a_playerState old))"
    using assms(3,4,5) by auto
  let ?c = "clearRef (a_controlsVisibilityTimeoutRef w) w"
  let ?f = "(setTimeout ForceShow 1000 ?c)\<lparr>a_controlsVisibilityTimeoutRef := Some (nextId ?c)\<rparr>"
  have f: "fallback_effect old w = ?f"
    using assms(3,4,5) by (auto simp: fallback_effect_def Let_def)
  have pc: "\<forall>t \<in> set (pending ?c). a_controlsTimeoutRef w = Some (fst t)"
    using assms(1) by (auto simp: clearRef_def clearTimeout_def split: option.splits)
  have pf: "pending (setTimeout ForceShow 1000 ?c) = pending ?c @ [(nextId w, now w + 1000, ForceShow)]"
    by (simp add: setTimeout_def)
  have r: "a_controlsTimeoutRef ?f = a_controlsTimeoutRef w"
    by (simp add: setTimeout_def)
  have "pending (clearRef (a_controlsTimeoutRef ?f) ?f) = [(nextId w, now w + 1000, ForceShow)]"
  proof (cases "a_controlsTimeoutRef w")
    case None
    with pc have "pending ?c = []" by (cases "pending ?c") auto
    then show ?thesis
      unfolding r None by (simp add: clearRef_def [of None] pf)
  next
    case (Some j)
    with pc have "filter (\<lambda>t. fst t \<noteq> j) (pending ?c) = []"
      by (auto simp: filter_empty_conv)
    moreover have "j \<noteq> nextId w" using assms(2) Some by auto
    ultimately show ?thesis
      unfolding r Some by (simp add: clearRef_def [of "Some j"] clearTimeout_def pf)
  qed
  moreover have "autohide_effect Current old ?f = clearRef (a_controlsTimeoutRef ?f) ?f"
    using assms(3,4,5) by (auto simp: autohide_effect_def Let_def setTimeout_def)
  ultimately have "pending (autohide_effect Current old (fallback_effect old w))
      = [(nextId w, now w + 1000, ForceShow)]"
    by (simp only: f)
  then show "pending (Advanced_effects Current old w) = [(nextId w, now w + 1000, ForceShow)]"
    by (simp add: Advanced_effects_def Advanced_progress_effect_def Let_def)
  show "now (Advanced_effects Current old w) = now w"
    and "\<not> a_showControls (Advanced_effects Current old w)"
    and "\<not> isPlaying (a_playerState (Advanced_effects Current old w))"
    using assms(3,4) by (simp_all add: Advanced_effects_keeps)
qed

text \<open>Shown and paused, with no timer pending but hiding timers that will not hide.\<close>

lemma stays_visible:
  assumes "a_showControls s"
    and "\<forall>t \<in> set (pending s). snd (snd t) = AutoHide False"
  shows "a_showControls (advance (Advanced_fire v) e s)"
proof -
  let ?J = "\<lambda>s. a_showControls s \<and> (\<forall>t \<in> set (pending s). snd (snd t) = AutoHide False)"
  have "?J (advance (Advanced_fire v) e s) \<and> now (advance (Advanced_fire v) e s) = now s + e"
  proof (rule advance_inv [where T = "now s + e"])
    show "?J s" using assms by simp
    show "now s + e \<le> now s + e" by simp
  next
    fix s :: advanced assume "?J s"
    then show "?J (s\<lparr>now := Suc (now s)\<rparr>)" by simp
  next
    fix u and s :: advanced
    assume s: "?J s" and u: "u \<in> set (pending s)"
    then have cb: "snd (snd u) = AutoHide False" by simp
    have "Advanced_fire v (snd (snd u)) (clearTimeout (fst u) s) = clearTimeout (fst u) s"
      by (simp add: cb Advanced_fire_def Advanced_callback_def Advanced_effects_same)
    then show "?J (Advanced_fire v (snd (snd u)) (clearTimeout (fst u) s))
        \<and> now (Advanced_fire v (snd (snd u)) (clearTimeout (fst u) s)) = now s"
      using s by simp
  qed
  then show ?thesis by simp
qed

text \<open>The fallback runs: the controls are shown, and only a hiding timer that will not hide is set.\<close>

lemma ForceShow_runs:
  assumes "\<not> a_showControls s" and "\<not> isPlaying (a_playerState s)" and "pending s = []"
  shows "a_showControls (Advanced_fire Current ForceShow s)"
    and "\<forall>t \<in> set (pending (Advanced_fire Current ForceShow s)). snd (snd t) = AutoHide False"
proof -
  let ?c = "Advanced_callback ForceShow s"
  have c: "a_showControls ?c" "pending ?c = []" "\<not> isPlaying (a_playerState ?c)"
    using assms by (simp_all add: Advanced_callback_def)
  show "a_showControls (Advanced_fire Current ForceShow s)"
    by (simp add: Advanced_fire_def Advanced_effects_keeps c)
  have "pending (fallback_effect s ?c) = []"
    using c assms(1) by (simp add: fallback_effect_def Let_def clearRef_def clearTimeout_def
        split: option.splits)
  then have "\<forall>t \<in> set (pending (autohide_effect Current s (fallback_effect s ?c))).
      snd (snd t) = AutoHide False"
    using c assms(1)
    by (simp add: autohide_effect_def Let_def clearRef_def clearTimeout_def setTimeout_def
        fallback_effect_keeps split: option.splits)
  then show "\<forall>t \<in> set (pending (Advanced_fire Current ForceShow s)). snd (snd t) = AutoHide False"
    by (simp add: Advanced_fire_def Advanced_effects_def Advanced_progress_effect_def Let_def)
qed

text \<open>
  From the moment an event leaves the controls hidden and playback paused: hidden for
  1000 ms, shown from then on.
\<close>

lemma hidden_paused_runs:
  assumes "\<forall>t \<in> set (pending w). a_controlsTimeoutRef w = Some (fst t)
             \<or> a_controlsVisibilityTimeoutRef w = Some (fst t)"
    and "\<forall>j. a_controlsTimeoutRef w = Some j \<longrightarrow> j < nextId w"
    and "\<not> a_showControls w" and "\<not> isPlaying (a_playerState w)"
    and "a_showControls old \<or> isPlaying (a_playerState old)"
  shows "g < 1000 \<Longrightarrow> \<not> a_showControls (advance (Advanced_fire Current) g (Advanced_effects Current old w))"
    and "1000 \<le> d \<Longrightarrow> a_showControls (advance (Advanced_fire Current) d (Advanced_effects Current old w))"
proof -
  let ?w1 = "Advanced_effects Current old w"
  note e = enter_hidden_paused [OF assms]
  {
    assume "g < 1000"
    then have "advance (Advanced_fire Current) g ?w1 = ?w1\<lparr>now := now ?w1 + g\<rparr>"
      by (intro advance_idle) (simp add: e)
    then show "\<not> a_showControls (advance (Advanced_fire Current) g ?w1)"
      using e(3) by simp
  }
  {
    assume d: "1000 \<le> d"
    let ?s = "?w1\<lparr>now := now w + 1000, pending := []\<rparr>"
    let ?f = "Advanced_fire Current ForceShow ?s"
    have "advance (Advanced_fire Current) d ?w1 =
          advance (Advanced_fire Current) (now ?w1 + d - (now w + 1000)) ?f"
      by (rule advance_single [OF e(1)]) (use d in \<open>simp_all add: e\<close>)
    moreover have "a_showControls (advance (Advanced_fire Current) (now ?w1 + d - (now w + 1000)) ?f)"
      by (rule stays_visible; rule ForceShow_runs) (use e in simp_all)
    ultimately show "a_showControls (advance (Advanced_fire Current) d ?w1)"
      by simp
  }
qed

text \<open>
  Claim C6, as the code has it.  In the current copy of AdvancedVideoPlayer, when an
  event leaves the controls hidden while playback is paused, and no single-tap timer is
  pending (every pending timer is one that \<open>controlsTimeoutRef\<close> or
  \<open>controlsVisibilityTimeoutRef\<close> holds, and the id in \<open>controlsTimeoutRef\<close> is an old
  one), then with no further event the controls stay hidden during the next 1000 ms and
  are shown from 1000 ms on.  The user's toggle to hidden is such an event and gets no
  more than that: when the callback of the single-tap timer \<open>i\<close> hides the controls
  while playback is paused, they are hidden at once and stay hidden for the 1000 ms that
  follow the toggle, whatever was pending before, and then the fallback shows them
  again.  The toggle restarts the second; it does not prevail over the fallback.
\<close>

theorem C6_controls_forced_visible:
  assumes "\<forall>t \<in> set (pending w). a_controlsTimeoutRef w = Some (fst t)
             \<or> a_controlsVisibilityTimeoutRef w = Some (fst t)"
    and "\<forall>j. a_controlsTimeoutRef w = Some j \<longrightarrow> j < nextId w"
    and "\<not> a_showControls w" and "\<not> isPlaying (a_playerState w)"
    and "a_showControls old \<or> isPlaying (a_playerState old)"
    and "a_showControls s" and "\<not> isPlaying (a_playerState s)"
    and "\<forall>t \<in> set (pending s). fst t = i \<or> a_controlsTimeoutRef s = Some (fst t)
             \<or> a_controlsVisibilityTimeoutRef s = Some (fst t)"
    and "\<forall>j. a_controlsTimeoutRef s = Some j \<longrightarrow> j < nextId s"
  shows "(g < 1000 \<longrightarrow>
            \<not> a_showControls (advance (Advanced_fire Current) g (Advanced_effects Current old w)))
         \<and> (1000 \<le> d \<longrightarrow>
            a_showControls (advance (Advanced_fire Current) d (Advanced_effects Current old w)))
         \<and> \<not> a_showControls (Advanced_fire Current ToggleControls (clearTimeout i s))
         \<and> (g < 1000 \<longrightarrow>
            \<not> a_showControls (advance (Advanced_fire Current) g
                 (Advanced_fire Current ToggleControls (clearTimeout i s))))
         \<and> (1000 \<le> d \<longrightarrow>
            a_showControls (advance (Advanced_fire Current) d
                 (Advanced_fire Current ToggleControls (clearTimeout i s))))"
proof -
  note a = hidden_paused_runs [OF assms(1-5)]
  let ?c = "clearTimeout i s"
  let ?t = "Advanced_callback ToggleControls ?c"
  have t: "pending ?t = pending ?c" "a_controlsTimeoutRef ?t = a_controlsTimeoutRef s"
    "a_controlsVisibilityTimeoutRef ?t = a_controlsVisibilityTimeoutRef s"
    "nextId ?t = nextId s" "\<not> a_showControls ?t" "\<not> isPlaying (a_playerState ?t)"
    "a_showControls ?c"
    using assms(6,7) by (simp_all add: Advanced_callback_def clearTimeout_def)
  have b1: "\<forall>t \<in> set (pending ?t). a_controlsTimeoutRef ?t = Some (fst t)
             \<or> a_controlsVisibilityTimeoutRef ?t = Some (fst t)"
    using assms(8) by (auto simp: t)
  have b2: "\<forall>j. a_controlsTimeoutRef ?t = Some j \<longrightarrow> j < nextId ?t"
    using assms(9) by (simp add: t)
  have b5: "a_showControls ?c \<or> isPlaying (a_playerState ?c)"
    using t(7) by simp
  note b = hidden_paused_runs [OF b1 b2 t(5,6) b5]
  have f: "Advanced_fire Current ToggleControls ?c = Advanced_effects Current ?c ?t"
    by (rule Advanced_fire_def)
  have "\<not> a_showControls (Advanced_fire Current ToggleControls ?c)"
    unfolding f using t(5) by (simp add: Advanced_effects_keeps)
  with a [of g] a(2) [of d] b(1) [of g] b(2) [of d] show ?thesis
    unfolding f by blast
qed

text \<open>A lone press on the paused player: its timer runs 250 ms later.\<close>

lemma lone_press_paused:
  "advance (Advanced_fire Current) 250
     (Advanced_event Current (Advanced_onPress Current 300 150) Advanced_paused)
   = Advanced_fire Current ToggleControls
       (clearTimeout 1
          (Advanced_paused\<lparr>now := 1250, nextId := 2, pending := [(1, 1250, ToggleControls)],
             a_doubleTapTimeoutRef := Some 1, a_lastTap := 1000\<rparr>))"
proof -
  let ?T = "Advanced_paused\<lparr>nextId := 2, pending := [(1, 1250, ToggleControls)],
        a_doubleTapTimeoutRef := Some 1, a_lastTap := 1000\<rparr>"
  have p: "pending ?T = [(1, 1250, ToggleControls)]" and n: "now ?T = 1000"
    and n0: "now Advanced_paused = 1000"
    by (simp_all add: Advanced_paused_def)
  have "advance (Advanced_fire Current) 250 ?T =
        advance (Advanced_fire Current) (now ?T + 250 - 1250)
          (Advanced_fire Current ToggleControls (?T\<lparr>now := 1250, pending := []\<rparr>))"
    by (rule advance_single [OF p]) (simp_all add: n0)
  moreover have "clearTimeout 1
          (Advanced_paused\<lparr>now := 1250, nextId := 2, pending := [(1, 1250, ToggleControls)],
             a_doubleTapTimeoutRef := Some 1, a_lastTap := 1000\<rparr>)
        = ?T\<lparr>now := 1250, pending := []\<rparr>"
    by (simp add: clearTimeout_def)
  ultimately show ?thesis
    by (simp add: first_press_paused n0)
qed

text \<open>
  An instance, the whole course of a lone press on the paused player: the controls are
  hidden 250 ms after it, are still hidden 1249 ms after it, and are shown again
  1250 ms after it.
\<close>

theorem C6_witness:
  "a_showControls Advanced_paused \<and> \<not> isPlaying (a_playerState Advanced_paused)
   \<and> (999 :: nat) < 1000 \<and> (1000 :: nat) \<le> 1000
   \<and> \<not> a_showControls (advance (Advanced_fire Current) 250
         (Advanced_event Current (Advanced_onPress Current 300 150) Advanced_paused))
   \<and> \<not> a_showControls (advance (Advanced_fire Current) (250 + 999)
         (Advanced_event Current (Advanced_onPress Current 300 150) Advanced_paused))
   \<and> a_showControls (advance (Advanced_fire Current) (250 + 1000)
         (Advanced_event Current (Advanced_onPress Current 300 150) Advanced_paused))"
proof -
  let ?T = "Advanced_event Current (Advanced_onPress Current 300 150) Advanced_paused"
  let ?s = "Advanced_paused\<lparr>now := 1250, nextId := 2, pending := [(1, 1250, ToggleControls)],
             a_doubleTapTimeoutRef := Some 1, a_lastTap := 1000\<rparr>"
  let ?w = "Advanced_callback ToggleControls Advanced_paused"
  note e = lone_press_paused
  have h: "\<forall>t \<in> set (pending ?w). a_controlsTimeoutRef ?w = Some (fst t)
       \<or> a_controlsVisibilityTimeoutRef ?w = Some (fst t)"
    "\<forall>j. a_controlsTimeoutRef ?w = Some j \<longrightarrow> j < nextId ?w"
    "\<not> a_showControls ?w" "\<not> isPlaying (a_playerState ?w)"
    "a_showControls Advanced_paused \<or> isPlaying (a_playerState Advanced_paused)"
    by (simp_all add: Advanced_callback_def Advanced_paused_def Advanced_init_def
        PlayerState_init_def)
  have b: "a_showControls ?s" "\<not> isPlaying (a_playerState ?s)"
    "\<forall>t \<in> set (pending ?s). fst t = 1 \<or> a_controlsTimeoutRef ?s = Some (fst t)
         \<or> a_controlsVisibilityTimeoutRef ?s = Some (fst t)"
    "\<forall>j. a_controlsTimeoutRef ?s = Some j \<longrightarrow> j < nextId ?s"
    by (simp_all add: Advanced_paused_def Advanced_init_def PlayerState_init_def)
  have n9: "(999 :: nat) < 1000" "(1000 :: nat) \<le> 1000" by simp_all
  from C6_controls_forced_visible [OF h b, of 999 1000] n9
  have r: "\<not> a_showControls (Advanced_fire Current ToggleControls (clearTimeout 1 ?s))"
    "\<not> a_showControls (advance (Advanced_fire Current) 999
         (Advanced_fire Current ToggleControls (clearTimeout 1 ?s)))"
    "a_showControls (advance (Advanced_fire Current) 1000
         (Advanced_fire Current ToggleControls (clearTimeout 1 ?s)))"
    by blast+
  have "\<not> a_showControls (advance (Advanced_fire Current) 250 ?T)"
    "\<not> a_showControls (advance (Advanced_fire Current) (250 + 999) ?T)"
    "a_showControls (advance (Advanced_fire Current) (250 + 1000) ?T)"
    unfolding advance_add e using r by blast+
  moreover have "a_showControls Advanced_paused" "\<not> isPlaying (a_playerState Advanced_paused)"
    by (simp_all add: Advanced_paused_def Advanced_init_def PlayerState_init_def)
  ultimately show ?thesis using n9 by blast
qed

text \<open>
  The claim as the specification states it fails in its last part.  Playback is paused
  and the controls are shown; the user presses the video once, and 250 ms later the
  single-tap timer hides the controls: this is the user's toggle to hidden, the one run
  of that callback.  Nothing else happens, and 1000 ms after the toggle the controls
  are shown again, by the fallback: the toggle has not prevailed.
\<close>

theorem C6_counterexample:
  "a_showControls Advanced_paused \<and> \<not> isPlaying (a_playerState Advanced_paused)
   \<and> a_toggles Advanced_paused = 0
   \<and> a_toggles (advance (Advanced_fire Current) 250
         (Advanced_event Current (Advanced_onPress Current 300 150) Advanced_paused)) = 1
   \<and> \<not> a_showControls (advance (Advanced_fire Current) 250
         (Advanced_event Current (Advanced_onPress Current 300 150) Advanced_paused))
   \<and> \<not> isPlaying (a_playerState (advance (Advanced_fire Current) 250
         (Advanced_event Current (Advanced_onPress Current 300 150) Advanced_paused)))
   \<and> a_toggles (advance (Advanced_fire Current) (250 + 1000)
         (Advanced_event Current (Advanced_onPress Current 300 150) Advanced_paused)) = 1
   \<and> a_showControls (advance (Advanced_fire Current) (250 + 1000)
         (Advanced_event Current (Advanced_onPress Current 300 150) Advanced_paused))"
proof -
  let ?T = "Advanced_event Current (Advanced_onPress Current 300 150) Advanced_paused"
  let ?s = "Advanced_paused\<lparr>now := 1250, nextId := 2, pending := [(1, 1250, ToggleControls)],
             a_doubleTapTimeoutRef := Some 1, a_lastTap := 1000\<rparr>"
  let ?c = "clearTimeout 1 ?s"
  let ?t = "Advanced_callback ToggleControls ?c"
  let ?X = "Advanced_fire Current ToggleControls ?c"
  note e = lone_press_paused
  have X: "?X = Advanced_effects Current ?c ?t" by (rule Advanced_fire_def)
  have t: "\<forall>u \<in> set (pending ?t). a_controlsTimeoutRef ?t = Some (fst u)
             \<or> a_controlsVisibilityTimeoutRef ?t = Some (fst u)"
    "\<forall>j. a_controlsTimeoutRef ?t = Some j \<longrightarrow> j < nextId ?t"
    "\<not> a_showControls ?t" "\<not> isPlaying (a_playerState ?t)"
    "a_showControls ?c \<or> isPlaying (a_playerState ?c)"
    and k: "a_toggles ?t = 1"
    by (simp_all add: Advanced_callback_def clearTimeout_def Advanced_paused_def
        Advanced_init_def PlayerState_init_def)
  note en = enter_hidden_paused [OF t]
  note hp = hidden_paused_runs [OF t]
  have x1: "a_toggles ?X = 1" "\<not> a_showControls ?X" "\<not> isPlaying (a_playerState ?X)"
    unfolding X using k t(3,4) by (simp_all add: Advanced_effects_keeps)
  have np: "\<forall>u \<in> set (pending ?X). \<not> is_tap (snd (snd u))"
    unfolding X en(1) by simp
  have x2: "a_toggles (advance (Advanced_fire Current) 1000 ?X) = 1"
    using no_tap_pending [OF np, of Current 1000] x1(1) by simp
  have x3: "a_showControls (advance (Advanced_fire Current) 1000 ?X)"
    unfolding X by (rule hp(2)) simp
  have "a_toggles (advance (Advanced_fire Current) 250 ?T) = 1"
    "\<not> a_showControls (advance (Advanced_fire Current) 250 ?T)"
    "\<not> isPlaying (a_playerState (advance (Advanced_fire Current) 250 ?T))"
    "a_toggles (advance (Advanced_fire Current) (250 + 1000) ?T) = 1"
    "a_showControls (advance (Advanced_fire Current) (250 + 1000) ?T)"
    unfolding advance_add e using x1 x2 x3 by blast+
  moreover have "a_showControls Advanced_paused" "\<not> isPlaying (a_playerState Advanced_paused)"
    "a_toggles Advanced_paused = 0"
    by (simp_all add: Advanced_paused_def Advanced_init_def PlayerState_init_def)
  ultimately show ?thesis by blast
qed
end
